theory Spec2Isabelle
  imports Complex_Main "HOL-Library.Sublist"
begin

section \<open>JavaScript values used by the pipeline\<close>

text \<open>
  A JavaScript number that came out of \<^verbatim>\<open>parseInt\<close> or \<^verbatim>\<open>parseFloat\<close> is either a
  number or \<^verbatim>\<open>NaN\<close>. The numeric part is kept exact (an \<open>int\<close> or a \<open>rat\<close>): the
  rounding of IEEE doubles beyond 2^53 is not part of this development.
\<close>

datatype 'a jsnum = Num 'a | NaN

text \<open>
  The response part of an axios error: the status code and the \<^verbatim>\<open>retry-after\<close> header
  (\<open>None\<close> when the header is absent).
\<close>

record http_response =
  status :: nat
  retry_after :: "string option"

text \<open>
  The exceptions that travel through the pipeline. An axios error carries a response
  only when the server answered; a network failure has none. Every error has a
  \<^verbatim>\<open>message\<close>, which the pipeline copies into its log entries.
\<close>

datatype js_error =
    AxiosError "http_response option" string
  | TypeError string
  | DatabaseError string
  | Error string

fun message :: "js_error \<Rightarrow> string" where
  "message (AxiosError r m) = m"
| "message (TypeError m) = m"
| "message (DatabaseError m) = m"
| "message (Error m) = m"

subsection \<open>parseInt\<close>

text \<open>
  \<^verbatim>\<open>parseInt(x)\<close> with no radix, on the string \<^verbatim>\<open>String(x)\<close>: leading white space is
  skipped, one sign is read, a \<^verbatim>\<open>0x\<close> prefix selects radix 16, and the longest prefix of
  digits of the radix is the value; with no digit the result is \<^verbatim>\<open>NaN\<close>. Only the ASCII
  white space characters are recognised here.
\<close>

definition isWhiteSpace :: "char \<Rightarrow> bool" where
  "isWhiteSpace c \<longleftrightarrow> c \<in> set [CHR '' '', CHR 0x09, CHR 0x0A, CHR 0x0B, CHR 0x0C, CHR 0x0D]"

definition digitValue :: "char \<Rightarrow> nat option" where
  "digitValue c =
     (let n = of_char c :: nat in
      if 48 \<le> n \<and> n \<le> 57 then Some (n - 48)
      else if 97 \<le> n \<and> n \<le> 122 then Some (n - 87)
      else if 65 \<le> n \<and> n \<le> 90 then Some (n - 55)
      else None)"

definition isRadixDigit :: "nat \<Rightarrow> char \<Rightarrow> bool" where
  "isRadixDigit R c = (case digitValue c of None \<Rightarrow> False | Some v \<Rightarrow> v < R)"

definition digitsValue :: "nat \<Rightarrow> string \<Rightarrow> nat" where
  "digitsValue R ds = foldl (\<lambda>acc c. acc * R + (case digitValue c of Some v \<Rightarrow> v | None \<Rightarrow> 0)) 0 ds"

definition parseInt :: "string \<Rightarrow> int jsnum" where
  "parseInt inputString =
     (let S = dropWhile isWhiteSpace inputString;
          sign = (if S \<noteq> [] \<and> hd S = CHR ''-'' then - 1 else 1 :: int);
          S1 = (if S \<noteq> [] \<and> (hd S = CHR ''+'' \<or> hd S = CHR ''-'') then tl S else S);
          hex = (prefix ''0x'' S1 \<or> prefix ''0X'' S1);
          R = (if hex then 16 else 10 :: nat);
          S2 = (if hex then drop 2 S1 else S1);
          Z = takeWhile (isRadixDigit R) S2
      in if Z = [] then NaN else Num (sign * int (digitsValue R Z)))"

text \<open>Multiplication of a parsed number by a constant, as in \<^verbatim>\<open>parseInt(h) * 1000\<close>.\<close>

fun jsTimes :: "int jsnum \<Rightarrow> int \<Rightarrow> int jsnum" where
  "jsTimes (Num a) k = Num (a * k)"
| "jsTimes NaN k = NaN"

section \<open>The rate-limited fetcher\<close>

text \<open>
  \<^verbatim>\<open>fetchWithExponentialBackoff(url, options, retries = 5, delay = 1000)\<close>, which the two
  files that define it write alike but for the text of the final error. The upstream
  is the function \<open>get\<close>: \<open>get k\<close> is the outcome of the \<open>k\<close>-th call of
  \<^verbatim>\<open>axios.get(url, options)\<close>, counted from 1. The result has three parts: the value
  returned or the exception thrown, the arguments of the successive \<^verbatim>\<open>setTimeout\<close>
  waits in milliseconds, and the number of calls of \<^verbatim>\<open>axios.get\<close> that were made.
\<close>

definition isRateLimit :: "js_error \<Rightarrow> bool" where
  "isRateLimit error =
     (case error of
        AxiosError (Some response) m \<Rightarrow> status response = 429
      | _ \<Rightarrow> False)"

definition truthy :: "string option \<Rightarrow> bool" where
  "truthy v = (case v of None \<Rightarrow> False | Some s \<Rightarrow> s \<noteq> [])"

definition retryAfterOf :: "js_error \<Rightarrow> string option" where
  "retryAfterOf error =
     (case error of
        AxiosError (Some response) m \<Rightarrow> retry_after response
      | _ \<Rightarrow> None)"

definition waitTime :: "js_error \<Rightarrow> nat \<Rightarrow> int jsnum" where
  "waitTime error delay =
     (case retryAfterOf error of
        Some retryAfter \<Rightarrow>
          if truthy (Some retryAfter) then jsTimes (parseInt retryAfter) 1000 else Num (int delay)
      | None \<Rightarrow> Num (int delay))"

function backoffLoop ::
  "(nat \<Rightarrow> js_error + 'r) \<Rightarrow> nat \<Rightarrow> nat \<Rightarrow> nat \<Rightarrow> int jsnum list
     \<Rightarrow> (js_error + 'r) \<times> int jsnum list \<times> nat"
where
  "backoffLoop get retries attempt delay waits =
     (if attempt \<le> retries then
        (case get attempt of
           Inr response \<Rightarrow> (Inr response, waits, attempt)
         | Inl error \<Rightarrow>
             if isRateLimit error
             then backoffLoop get retries (attempt + 1) (delay * 2) (waits @ [waitTime error delay])
             else (Inl error, waits, attempt))
      else (Inl (Error ''Max retries exceeded''), waits, attempt - 1))"
  by pat_completeness auto
termination
  by (relation "measure (\<lambda>(get, retries, attempt, delay, waits). Suc retries - attempt)") auto

declare backoffLoop.simps [simp del]

definition fetchWithExponentialBackoff ::
  "(nat \<Rightarrow> js_error + 'r) \<Rightarrow> nat \<Rightarrow> nat \<Rightarrow> (js_error + 'r) \<times> int jsnum list \<times> nat"
where
  "fetchWithExponentialBackoff get retries delay = backoffLoop get retries 1 delay []"

definition DEFAULT_RETRIES :: nat where "DEFAULT_RETRIES = 5"
definition DEFAULT_DELAY :: nat where "DEFAULT_DELAY = 1000"

text \<open>The \<open>j\<close>-th call met a rate-limit response: it threw, with status 429.\<close>

definition rateLimited :: "(nat \<Rightarrow> js_error + 'r) \<Rightarrow> nat \<Rightarrow> bool" where
  "rateLimited get j = (case get j of Inl error \<Rightarrow> isRateLimit error | Inr response \<Rightarrow> False)"

text \<open>The \<open>j\<close>-th call met a rate-limit response that carries a usable \<^verbatim>\<open>retry-after\<close> header.\<close>

definition serverDelay :: "(nat \<Rightarrow> js_error + 'r) \<Rightarrow> nat \<Rightarrow> bool" where
  "serverDelay get j = (case get j of Inl error \<Rightarrow> truthy (retryAfterOf error) | Inr response \<Rightarrow> False)"

section \<open>The store, the upstream and the run state\<close>

text \<open>
  Conventions. An \<^verbatim>\<open>async\<close> function of the source is a function from the state to a pair:
  the outcome, \<open>Inl\<close> of the exception thrown or \<open>Inr\<close> of the value returned, and the
  state it leaves. A \<^verbatim>\<open>try\<close> block is a \<^theory_text>\<open>case\<close> on the outcome of its body. Output
  to the console is left out. Site ids are natural numbers, as the directory and the
  \<^verbatim>\<open>INTEGER\<close> column \<^verbatim>\<open>sid\<close> have them; dates are the texts \<^verbatim>\<open>YYYY-MM-DD\<close> that the code
  passes around. The incremental pipeline is the one of the server file that collects the
  target score; \<^verbatim>\<open>logErrorToDatabase\<close> of \<^verbatim>\<open>app.js\<close> is the same function on the table
  \<^verbatim>\<open>error_log\<close>.
\<close>

text \<open>
  A row of \<^verbatim>\<open>ada_scores\<close>, which is also the \<^verbatim>\<open>record\<close> object that
  \<^verbatim>\<open>fetchAndInsertRecords\<close> builds. The compliance scores are what \<^verbatim>\<open>parseInt\<close>
  returned; \<^verbatim>\<open>site_target_score\<close> is \<^verbatim>\<open>null\<close> (\<open>None\<close>) or what \<^verbatim>\<open>parseFloat\<close>
  returned.
\<close>

record score_record =
  sid :: nat
  name :: string
  url :: string
  ada_a :: "int jsnum"
  ada_aa :: "int jsnum"
  ada_aaa :: "int jsnum"
  ada_aria :: "int jsnum"
  ada_score_total :: "int jsnum"
  site_target_score :: "rat jsnum option"
  date :: string

text \<open>A row of \<^verbatim>\<open>error_logs\<close>; the timestamp column, filled by \<^verbatim>\<open>NOW()\<close>, is left out.\<close>

record error_log =
  log_site_id :: "nat option"
  log_site_name :: "string option"
  log_message :: string
  log_level :: string

text \<open>A site of the directory listing. \<open>product\<close> is \<open>None\<close> when the field is missing.\<close>

record site =
  site_id :: nat
  site_name :: string
  site_url :: string
  product :: "string list option"

text \<open>
  The \<^verbatim>\<open>a11y\<close> object of the overview response. Each field holds the string that
  \<^verbatim>\<open>parseInt\<close> converts its argument to (for a missing field, \<^verbatim>\<open>undefined\<close>).
\<close>

record a11y =
  a11y_a :: string
  a11y_aa :: string
  a11y_aaa :: string
  a11y_aria :: string
  a11y_total :: string

text \<open>
  An entry of the target history. \<open>timestamp\<close> is \<open>None\<close> when the field is not a
  string. \<open>site_target_percentage\<close> holds the number that \<^verbatim>\<open>parseFloat\<close> reads from
  the field (\<open>NaN\<close> when it reads none).
\<close>

record target_entry =
  timestamp :: "string option"
  site_target_percentage :: "rat jsnum"

record stats =
  sitesPulled :: nat
  processed :: nat
  inserted :: nat
  skippedExisting :: nat
  targetInfoNotes :: nat
  targetErrors :: nat
  insertErrors :: nat

text \<open>
  What the run cannot control:
  \<^item> \<open>dbFails n\<close>: whether the \<open>n\<close>-th call of the connection pool fails, and with which
    message. A statement that fails changes no table.
  \<^item> \<open>utcDate n\<close>: the date part of \<^verbatim>\<open>new Date().toISOString()\<close> at the \<open>n\<close>-th reading
    of the clock.
  \<^item> \<open>storedDate d\<close>: the text that a persisted \<^verbatim>\<open>date\<close> value \<open>d\<close> yields when a row is
    read back and interpolated into a template string.
  \<^item> \<open>listSites\<close>: the outcome of the directory request, with the \<^verbatim>\<open>items\<close> of its body
    (\<open>None\<close> when the body has none); a body that is no object is part of the error side.
  \<^item> \<open>overview i\<close>: the outcome of the overview request for site \<open>i\<close>, with the
    \<^verbatim>\<open>a11y\<close> object of its body (\<open>None\<close> when there is none to destructure).
  \<^item> \<open>targetHistory i\<close>: the outcome of the target-history request for site \<open>i\<close>, with
    the \<^verbatim>\<open>items\<close> of its body; a body that is no object is part of the error side.

  Within one run the upstream gives the same answer each time it is asked about the same
  site; the database and the clock may answer differently at every call.
\<close>

record env =
  dbFails :: "nat \<Rightarrow> string option"
  utcDate :: "nat \<Rightarrow> string"
  storedDate :: "string \<Rightarrow> string"
  listSites :: "js_error + site list option"
  overview :: "nat \<Rightarrow> js_error + a11y option"
  targetHistory :: "nat \<Rightarrow> js_error + target_entry list option"

text \<open>
  The state that the pipeline reads and writes: the two tables, the number of pool calls
  made and of clock readings taken so far, and the two objects of the current run that
  \<^verbatim>\<open>insertScore\<close> mutates in place, the set \<^verbatim>\<open>existingRecords\<close> and the counters.
\<close>

record state =
  ada_scores :: "score_record list"
  error_logs :: "error_log list"
  queries :: nat
  ticks :: nat
  existingRecords :: "string set"
  stats :: stats

definition incr_processed :: "state \<Rightarrow> state" where
  "incr_processed s = s\<lparr>stats := (stats s)\<lparr>processed := processed (stats s) + 1\<rparr>\<rparr>"

definition incr_inserted :: "state \<Rightarrow> state" where
  "incr_inserted s = s\<lparr>stats := (stats s)\<lparr>inserted := inserted (stats s) + 1\<rparr>\<rparr>"

definition incr_skippedExisting :: "state \<Rightarrow> state" where
  "incr_skippedExisting s = s\<lparr>stats := (stats s)\<lparr>skippedExisting := skippedExisting (stats s) + 1\<rparr>\<rparr>"

definition incr_targetInfoNotes :: "state \<Rightarrow> state" where
  "incr_targetInfoNotes s = s\<lparr>stats := (stats s)\<lparr>targetInfoNotes := targetInfoNotes (stats s) + 1\<rparr>\<rparr>"

definition incr_targetErrors :: "state \<Rightarrow> state" where
  "incr_targetErrors s = s\<lparr>stats := (stats s)\<lparr>targetErrors := targetErrors (stats s) + 1\<rparr>\<rparr>"

definition incr_insertErrors :: "state \<Rightarrow> state" where
  "incr_insertErrors s = s\<lparr>stats := (stats s)\<lparr>insertErrors := insertErrors (stats s) + 1\<rparr>\<rparr>"

subsection \<open>The statements sent to the pool\<close>

text \<open>
  \<^verbatim>\<open>pool.query\<close>: the call is counted; when the database fails it throws and no table
  changes, otherwise the statement runs and its result is returned.
\<close>

definition pool_query :: "env \<Rightarrow> (state \<Rightarrow> 'a \<times> state) \<Rightarrow> state \<Rightarrow> (js_error + 'a) \<times> state" where
  "pool_query e statement s =
     (let s1 = s\<lparr>queries := Suc (queries s)\<rparr> in
      case dbFails e (queries s) of
        Some m \<Rightarrow> (Inl (DatabaseError m), s1)
      | None \<Rightarrow> (case statement s1 of (result, s2) \<Rightarrow> (Inr result, s2)))"

text \<open>\<^verbatim>\<open>INSERT INTO error_logs (site_id, site_name, message, level, timestamp) VALUES (...)\<close>\<close>

definition INSERT_error_logs :: "error_log \<Rightarrow> state \<Rightarrow> unit \<times> state" where
  "INSERT_error_logs entry s = ((), s\<lparr>error_logs := error_logs s @ [entry]\<rparr>)"

text \<open>\<^verbatim>\<open>SELECT sid, date FROM ada_scores\<close>\<close>

definition SELECT_sid_date :: "state \<Rightarrow> (nat \<times> string) list \<times> state" where
  "SELECT_sid_date s = (map (\<lambda>row. (sid row, date row)) (ada_scores s), s)"

text \<open>
  \<^verbatim>\<open>INSERT INTO ada_scores (...) VALUES (...) ON CONFLICT (sid, date) DO NOTHING\<close>; the
  result is the row count.
\<close>

definition conflicts :: "score_record list \<Rightarrow> nat \<Rightarrow> string \<Rightarrow> bool" where
  "conflicts rows i d = (\<exists>row \<in> set rows. sid row = i \<and> date row = d)"

definition INSERT_ada_scores :: "score_record \<Rightarrow> state \<Rightarrow> nat \<times> state" where
  "INSERT_ada_scores r s =
     (if conflicts (ada_scores s) (sid r) (date r) then (0, s)
      else (1, s\<lparr>ada_scores := ada_scores s @ [r]\<rparr>))"

text \<open>
  \<^verbatim>\<open>UPDATE ada_scores SET site_target_score = $1 WHERE sid = $2 AND date = $3 AND
  site_target_score IS NULL\<close>, the conditional patch of the backfill; the result is the row
  count.
\<close>

definition patchable :: "nat \<Rightarrow> string \<Rightarrow> score_record \<Rightarrow> bool" where
  "patchable i d row \<longleftrightarrow> sid row = i \<and> date row = d \<and> site_target_score row = None"

definition patchRows :: "rat jsnum \<Rightarrow> nat \<Rightarrow> string \<Rightarrow> score_record list \<Rightarrow> score_record list" where
  "patchRows score i d rows =
     map (\<lambda>row. if patchable i d row then row\<lparr>site_target_score := Some score\<rparr> else row) rows"

definition UPDATE_site_target_score :: "rat jsnum \<Rightarrow> nat \<Rightarrow> string \<Rightarrow> state \<Rightarrow> nat \<times> state" where
  "UPDATE_site_target_score score i d s =
     (length (filter (patchable i d) (ada_scores s)),
      s\<lparr>ada_scores := patchRows score i d (ada_scores s)\<rparr>)"

section \<open>The incremental pipeline\<close>

subsection \<open>logErrorToDatabase\<close>

text \<open>\<^verbatim>\<open>x || null\<close> on a site id and on a site name: 0 and the empty string are falsy.\<close>

definition idOrNull :: "nat option \<Rightarrow> nat option" where
  "idOrNull siteId = (case siteId of None \<Rightarrow> None | Some i \<Rightarrow> if i = 0 then None else Some i)"

definition nameOrNull :: "string \<Rightarrow> string option" where
  "nameOrNull siteName = (if siteName = [] then None else Some siteName)"

definition logErrorToDatabase ::
  "env \<Rightarrow> nat option \<Rightarrow> string \<Rightarrow> string \<Rightarrow> string \<Rightarrow> state \<Rightarrow> (js_error + unit) \<times> state"
where
  "logErrorToDatabase e siteId siteName errorMessage level s =
     (case pool_query e
             (INSERT_error_logs
                \<lparr>log_site_id = idOrNull siteId, log_site_name = nameOrNull siteName,
                 log_message = errorMessage, log_level = level\<rparr>) s
      of
        (Inr u, s1) \<Rightarrow> (Inr (), s1)
      | (Inl error, s1) \<Rightarrow> (Inr (), s1))"

subsection \<open>fetchExistingRecords\<close>

text \<open>Decimal digits of a number, as a template string renders it.\<close>

fun showNat :: "nat \<Rightarrow> string" where
  "showNat n = (if n < 10 then [char_of (48 + n)] else showNat (n div 10) @ [char_of (48 + n mod 10)])"

declare showNat.simps [simp del]

text \<open>The template \<^verbatim>\<open>`${sid}-${date}`\<close>.\<close>

definition recordKey :: "nat \<Rightarrow> string \<Rightarrow> string" where
  "recordKey i d = showNat i @ ''-'' @ d"

definition fetchExistingRecords :: "env \<Rightarrow> state \<Rightarrow> (js_error + string set) \<times> state" where
  "fetchExistingRecords e s =
     (case pool_query e SELECT_sid_date s of
        (Inl error, s1) \<Rightarrow> (Inl error, s1)
      | (Inr rows, s1) \<Rightarrow> (Inr (set (map (\<lambda>(i, d). recordKey i (storedDate e d)) rows)), s1))"

subsection \<open>insertScore\<close>

definition insertScore :: "env \<Rightarrow> score_record \<Rightarrow> state \<Rightarrow> (js_error + bool) \<times> state" where
  "insertScore e record s =
     (let key = recordKey (sid record) (date record) in
      if key \<in> existingRecords s then (Inr False, incr_skippedExisting s)
      else
        (case pool_query e (INSERT_ada_scores record) s of
           (Inr rowCount, s1) \<Rightarrow>
             if rowCount > 0
             then (Inr True, (incr_inserted s1)\<lparr>existingRecords := insert key (existingRecords s1)\<rparr>)
             else (Inr False, incr_skippedExisting s1)
         | (Inl err, s1) \<Rightarrow>
             (case logErrorToDatabase e (Some (sid record)) (name record) (message err) ''ERROR''
                     (incr_insertErrors s1)
              of
                (Inl error, s2) \<Rightarrow> (Inl error, s2)
              | (Inr u, s2) \<Rightarrow> (Inr False, s2))))"

subsection \<open>fetchAndInsertRecords\<close>

text \<open>\<^verbatim>\<open>new Date().toISOString().split('T')[0]\<close>\<close>

definition readDate :: "env \<Rightarrow> state \<Rightarrow> string \<times> state" where
  "readDate e s = (utcDate e (ticks s), s\<lparr>ticks := Suc (ticks s)\<rparr>)"

text \<open>The predicate of \<^verbatim>\<open>items.find\<close> in the incremental run.\<close>

definition isTodayEntry :: "string \<Rightarrow> target_entry \<Rightarrow> bool" where
  "isTodayEntry todayStr entry =
     (case timestamp entry of None \<Rightarrow> False | Some t \<Rightarrow> prefix todayStr t)"

text \<open>The body of the inner \<^verbatim>\<open>try\<close>: the target-history request and the search for today's entry.\<close>

definition targetTry :: "env \<Rightarrow> site \<Rightarrow> state \<Rightarrow> (js_error + rat jsnum option) \<times> state" where
  "targetTry e st s =
     (case targetHistory e (site_id st) of
        Inl err \<Rightarrow> (Inl err, s)
      | Inr items \<Rightarrow>
          (case readDate e s of
             (todayStr, s1) \<Rightarrow>
               (case find (isTodayEntry todayStr) (case items of None \<Rightarrow> [] | Some xs \<Rightarrow> xs) of
                  Some todayTarget \<Rightarrow> (Inr (Some (site_target_percentage todayTarget)), s1)
                | None \<Rightarrow>
                    (case logErrorToDatabase e (Some (site_id st)) (site_name st)
                            ''No site_target_percentage entry for today'' ''INFO''
                            (incr_targetInfoNotes s1)
                     of
                       (Inl error, s2) \<Rightarrow> (Inl error, s2)
                     | (Inr u, s2) \<Rightarrow> (Inr None, s2)))))"

text \<open>The inner \<^verbatim>\<open>try\<close> with its \<^verbatim>\<open>catch\<close>; the result is the value of \<^verbatim>\<open>siteTarget\<close>.\<close>

definition targetLookup :: "env \<Rightarrow> site \<Rightarrow> state \<Rightarrow> (js_error + rat jsnum option) \<times> state" where
  "targetLookup e st s =
     (case targetTry e st s of
        (Inr siteTarget, s1) \<Rightarrow> (Inr siteTarget, s1)
      | (Inl targetErr, s1) \<Rightarrow>
          (case logErrorToDatabase e (Some (site_id st)) (site_name st)
                  (''Target score fetch error: '' @ message targetErr) ''INFO''
                  (incr_targetErrors s1)
           of
             (Inl error, s2) \<Rightarrow> (Inl error, s2)
           | (Inr u, s2) \<Rightarrow> (Inr None, s2)))"

definition buildRecord :: "site \<Rightarrow> a11y \<Rightarrow> rat jsnum option \<Rightarrow> string \<Rightarrow> score_record" where
  "buildRecord st p siteTarget today =
     \<lparr>sid = site_id st, name = site_name st, url = site_url st,
      ada_a = parseInt (a11y_a p), ada_aa = parseInt (a11y_aa p),
      ada_aaa = parseInt (a11y_aaa p), ada_aria = parseInt (a11y_aria p),
      ada_score_total = parseInt (a11y_total p),
      site_target_score = siteTarget, date = today\<rparr>"

text \<open>The body of the per-site \<^verbatim>\<open>try\<close>.\<close>

definition siteTry :: "env \<Rightarrow> site \<Rightarrow> string \<Rightarrow> state \<Rightarrow> (js_error + unit) \<times> state" where
  "siteTry e st today s =
     (let s1 = incr_processed s in
      case overview e (site_id st) of
        Inl err \<Rightarrow> (Inl err, s1)
      | Inr payload \<Rightarrow>
          (case targetLookup e st s1 of
             (Inl err, s2) \<Rightarrow> (Inl err, s2)
           | (Inr siteTarget, s2) \<Rightarrow>
               (case payload of
                  None \<Rightarrow> (Inl (TypeError ''Cannot destructure property a of undefined''), s2)
                | Some p \<Rightarrow>
                    (case insertScore e (buildRecord st p siteTarget today) s2 of
                       (Inl err, s3) \<Rightarrow> (Inl err, s3)
                     | (Inr b, s3) \<Rightarrow> (Inr (), s3)))))"

text \<open>One turn of the loop over a batch: the per-site \<^verbatim>\<open>try\<close> with its \<^verbatim>\<open>catch\<close>.\<close>

definition processSite :: "env \<Rightarrow> site \<Rightarrow> state \<Rightarrow> (js_error + unit) \<times> state" where
  "processSite e st s =
     (case readDate e s of
        (today, s0) \<Rightarrow>
          (case siteTry e st today s0 of
             (Inr u, s1) \<Rightarrow> (Inr (), s1)
           | (Inl err, s1) \<Rightarrow>
               logErrorToDatabase e (Some (site_id st)) (site_name st)
                 (''Approved site failed during processing: '' @ message err) ''WARNING'' s1))"

fun processBatch :: "env \<Rightarrow> site list \<Rightarrow> state \<Rightarrow> (js_error + unit) \<times> state" where
  "processBatch e [] s = (Inr (), s)"
| "processBatch e (st # batch) s =
     (case processSite e st s of
        (Inl err, s1) \<Rightarrow> (Inl err, s1)
      | (Inr u, s1) \<Rightarrow> processBatch e batch s1)"

text \<open>\<^verbatim>\<open>sites.slice(i, i + 20)\<close>\<close>

definition slice :: "'a list \<Rightarrow> nat \<Rightarrow> nat \<Rightarrow> 'a list" where
  "slice xs i j = take (j - i) (drop i xs)"

function batchLoop :: "env \<Rightarrow> site list \<Rightarrow> nat \<Rightarrow> state \<Rightarrow> (js_error + unit) \<times> state" where
  "batchLoop e sites i s =
     (if i < length sites then
        (case processBatch e (slice sites i (i + 20)) s of
           (Inl err, s1) \<Rightarrow> (Inl err, s1)
         | (Inr u, s1) \<Rightarrow> batchLoop e sites (i + 20) s1)
      else (Inr (), s))"
  by pat_completeness auto
termination
  by (relation "measure (\<lambda>(e, sites, i, s). length sites - i)") auto

declare batchLoop.simps [simp del]

text \<open>
  \<^verbatim>\<open>(response.data.items || []).filter(site => site.product.includes('accessibility'))\<close>:
  a site without \<^verbatim>\<open>product\<close> makes the filter throw.
\<close>

fun filterAccessible :: "site list \<Rightarrow> js_error + site list" where
  "filterAccessible [] = Inr []"
| "filterAccessible (st # rest) =
     (case product st of
        None \<Rightarrow> Inl (TypeError ''Cannot read properties of undefined (reading includes)'')
      | Some ps \<Rightarrow>
          (case filterAccessible rest of
             Inl err \<Rightarrow> Inl err
           | Inr sites \<Rightarrow> Inr (if ''accessibility'' \<in> set ps then st # sites else sites)))"

text \<open>The directory request and the filter: the sites of the run, or the exception.\<close>

definition accessibleSites :: "env \<Rightarrow> js_error + site list" where
  "accessibleSites e =
     (case listSites e of
        Inl err \<Rightarrow> Inl err
      | Inr items \<Rightarrow> filterAccessible (case items of None \<Rightarrow> [] | Some xs \<Rightarrow> xs))"

text \<open>The body of the outer \<^verbatim>\<open>try\<close>.\<close>

definition sweepTry :: "env \<Rightarrow> state \<Rightarrow> (js_error + stats) \<times> state" where
  "sweepTry e s =
     (case accessibleSites e of
        Inl err \<Rightarrow> (Inl err, s)
      | Inr sites \<Rightarrow>
          (case batchLoop e sites 0 (s\<lparr>stats := (stats s)\<lparr>sitesPulled := length sites\<rparr>\<rparr>) of
             (Inl err, s1) \<Rightarrow> (Inl err, s1)
           | (Inr u, s1) \<Rightarrow> (Inr (stats s1), s1)))"

definition newStats :: stats where
  "newStats = \<lparr>sitesPulled = 0, processed = 0, inserted = 0, skippedExisting = 0,
               targetInfoNotes = 0, targetErrors = 0, insertErrors = 0\<rparr>"

definition fetchAndInsertRecords :: "env \<Rightarrow> state \<Rightarrow> (js_error + stats) \<times> state" where
  "fetchAndInsertRecords e s =
     (case fetchExistingRecords e (s\<lparr>stats := newStats\<rparr>) of
        (Inl err, s1) \<Rightarrow> (Inl err, s1)
      | (Inr existing, s1) \<Rightarrow>
          (case sweepTry e (s1\<lparr>existingRecords := existing\<rparr>) of
             (Inr result, s2) \<Rightarrow> (Inr result, s2)
           | (Inl err, s2) \<Rightarrow>
               (case logErrorToDatabase e None ''General API Error'' (message err) ''ERROR'' s2 of
                  (Inl error, s3) \<Rightarrow> (Inl error, s3)
                | (Inr u, s3) \<Rightarrow> (Inl err, s3))))"

section \<open>The backfill\<close>

subsection \<open>The batch update\<close>

text \<open>An element of \<^verbatim>\<open>updates\<close>: \<^verbatim>\<open>{ sid, date, score }\<close>, the score being a number that is not \<^verbatim>\<open>NaN\<close>.\<close>

record target_update =
  u_sid :: nat
  u_date :: string
  u_score :: rat

text \<open>\<^verbatim>\<open>pool.connect()\<close>: counted as a pool call; it throws when the database fails.\<close>

definition pool_connect :: "env \<Rightarrow> state \<Rightarrow> (js_error + unit) \<times> state" where
  "pool_connect e s = pool_query e (\<lambda>s1. ((), s1)) s"

text \<open>
  \<^verbatim>\<open>updates.map(u => client.query(...))\<close>: the statements are sent on one client, which
  runs them in order; each one succeeds or fails on its own.
\<close>

fun clientQueries :: "env \<Rightarrow> target_update list \<Rightarrow> state \<Rightarrow> (js_error + nat) list \<times> state" where
  "clientQueries e [] s = ([], s)"
| "clientQueries e (u # us) s =
     (case pool_query e (UPDATE_site_target_score (Num (u_score u)) (u_sid u) (u_date u)) s of
        (r, s1) \<Rightarrow> (case clientQueries e us s1 of (rs, s2) \<Rightarrow> (r # rs, s2)))"

text \<open>
  The block \<^verbatim>\<open>if (updates.length > 0) { ... }\<close>: a failure of \<^verbatim>\<open>pool.connect()\<close> leaves the
  block as an exception; a failure of a statement is caught after \<^verbatim>\<open>Promise.all\<close> and
  printed.
\<close>

definition batchUpdate :: "env \<Rightarrow> target_update list \<Rightarrow> state \<Rightarrow> (js_error + unit) \<times> state" where
  "batchUpdate e updates s =
     (if length updates > 0 then
        (case pool_connect e s of
           (Inl err, s1) \<Rightarrow> (Inl err, s1)
         | (Inr client, s1) \<Rightarrow>
             (case clientQueries e updates s1 of (results, s2) \<Rightarrow> (Inr (), s2)))
      else (Inr (), s))"

subsection \<open>Date reconciliation\<close>

text \<open>\<^verbatim>\<open>String.prototype.trim\<close>, for the ASCII white space characters.\<close>

definition trim :: "string \<Rightarrow> string" where
  "trim s = rev (dropWhile isWhiteSpace (rev (dropWhile isWhiteSpace s)))"

text \<open>\<^verbatim>\<open>s.replace(' ', 'T')\<close>: a string pattern replaces the first occurrence only.\<close>

fun replaceSpace :: "string \<Rightarrow> string" where
  "replaceSpace [] = []"
| "replaceSpace (c # cs) = (if c = CHR '' '' then CHR ''T'' # cs else c # replaceSpace cs)"

definition isDigit :: "char \<Rightarrow> bool" where
  "isDigit c = (let n = of_char c :: nat in 48 \<le> n \<and> n \<le> 57)"

definition digitsToNat :: "string \<Rightarrow> nat option" where
  "digitsToNat cs = (if cs \<noteq> [] \<and> list_all isDigit cs then Some (digitsValue 10 cs) else None)"

record civil =
  year :: nat
  month :: nat
  day :: nat

definition isLeapYear :: "nat \<Rightarrow> bool" where
  "isLeapYear y \<longleftrightarrow> (y mod 4 = 0 \<and> y mod 100 \<noteq> 0) \<or> y mod 400 = 0"

definition daysInMonth :: "nat \<Rightarrow> nat \<Rightarrow> nat" where
  "daysInMonth y m =
     (if m = 2 then (if isLeapYear y then 29 else 28)
      else if m = 4 \<or> m = 6 \<or> m = 9 \<or> m = 11 then 30 else 31)"

definition validDate :: "nat \<Rightarrow> nat \<Rightarrow> nat \<Rightarrow> bool" where
  "validDate y m d \<longleftrightarrow> 1 \<le> m \<and> m \<le> 12 \<and> 1 \<le> d \<and> d \<le> daysInMonth y m"

text \<open>
  What \<^verbatim>\<open>new Date(text)\<close> reads, for the three forms of the ECMAScript date-time string
  format that are modelled: \<^verbatim>\<open>YYYY-MM-DD\<close> (read as UTC), \<^verbatim>\<open>YYYY-MM-DDTHH:mm:ss\<close> (no
  offset: read as local time) and \<^verbatim>\<open>YYYY-MM-DDTHH:mm:ssZ\<close> (UTC), with every field in
  range. The result is the date, the seconds into the day, and whether the time is local.
  Any other text is outside the model (\<open>None\<close>).
\<close>

definition parseDate :: "string \<Rightarrow> civil option" where
  "parseDate s =
     (if length s = 10 \<and> s ! 4 = CHR ''-'' \<and> s ! 7 = CHR ''-'' then
        (case (digitsToNat (take 4 s), digitsToNat (take 2 (drop 5 s)), digitsToNat (take 2 (drop 8 s))) of
           (Some y, Some m, Some d) \<Rightarrow>
             if validDate y m d then Some \<lparr>year = y, month = m, day = d\<rparr> else None
         | _ \<Rightarrow> None)
      else None)"

definition parseTime :: "string \<Rightarrow> nat option" where
  "parseTime s =
     (if length s = 8 \<and> s ! 2 = CHR '':'' \<and> s ! 5 = CHR '':'' then
        (case (digitsToNat (take 2 s), digitsToNat (take 2 (drop 3 s)), digitsToNat (take 2 (drop 6 s))) of
           (Some h, Some mi, Some sec) \<Rightarrow>
             if h < 24 \<and> mi < 60 \<and> sec < 60 then Some (h * 3600 + mi * 60 + sec) else None
         | _ \<Rightarrow> None)
      else None)"

definition parseDateTime :: "string \<Rightarrow> (civil \<times> nat \<times> bool) option" where
  "parseDateTime s =
     (if length s = 10 then
        (case parseDate s of None \<Rightarrow> None | Some c \<Rightarrow> Some (c, 0, False))
      else if (length s = 19 \<or> (length s = 20 \<and> s ! 19 = CHR ''Z'')) \<and> s ! 10 = CHR ''T'' then
        (case (parseDate (take 10 s), parseTime (take 8 (drop 11 s))) of
           (Some c, Some secs) \<Rightarrow> Some (c, secs, length s = 19)
         | _ \<Rightarrow> None)
      else None)"

definition previousDay :: "civil \<Rightarrow> civil option" where
  "previousDay c =
     (if 1 < day c then Some (c\<lparr>day := day c - 1\<rparr>)
      else if 1 < month c
        then Some (c\<lparr>month := month c - 1, day := daysInMonth (year c) (month c - 1)\<rparr>)
      else if 0 < year c then Some \<lparr>year = year c - 1, month = 12, day = 31\<rparr>
      else None)"

definition nextDay :: "civil \<Rightarrow> civil option" where
  "nextDay c =
     (if day c < daysInMonth (year c) (month c) then Some (c\<lparr>day := day c + 1\<rparr>)
      else if month c < 12 then Some (c\<lparr>month := month c + 1, day := 1\<rparr>)
      else if year c < 9999 then Some \<lparr>year = year c + 1, month = 1, day = 1\<rparr>
      else None)"

text \<open>
  The UTC date of a time. \<open>tz\<close> is the offset of the local time zone of the process, in
  minutes east of UTC (local time = UTC + \<open>tz\<close>), taken as fixed; offsets of a day or more
  are outside the model.
\<close>

definition utcDateOf :: "int \<Rightarrow> civil \<times> nat \<times> bool \<Rightarrow> civil option" where
  "utcDateOf tz lt =
     (case lt of (c, secs, isLocal) \<Rightarrow>
        if \<not> (- 1440 < tz \<and> tz < 1440) then None
        else
          (let t = int secs - (if isLocal then 60 * tz else 0) in
           if t < 0 then previousDay c
           else if 86400 \<le> t then nextDay c
           else Some c))"

definition pad :: "nat \<Rightarrow> string \<Rightarrow> string" where
  "pad n s = replicate (n - length s) CHR ''0'' @ s"

text \<open>The first part of \<^verbatim>\<open>toISOString().split('T')\<close>, for the years 0 to 9999.\<close>

definition isoDate :: "civil \<Rightarrow> string" where
  "isoDate c = pad 4 (showNat (year c)) @ ''-'' @ pad 2 (showNat (month c)) @ ''-'' @ pad 2 (showNat (day c))"

text \<open>
  \<^verbatim>\<open>new Date(timestamp.trim().replace(' ', 'T')).toISOString().split('T')[0]\<close>
\<close>

definition entryDate :: "int \<Rightarrow> string \<Rightarrow> string option" where
  "entryDate tz ts =
     (case parseDateTime (replaceSpace (trim ts)) of
        None \<Rightarrow> None
      | Some lt \<Rightarrow> (case utcDateOf tz lt of None \<Rightarrow> None | Some c \<Rightarrow> Some (isoDate c)))"

text \<open>
  The outcome of \<^verbatim>\<open>items.find(entry => ...)\<close> in the backfill: the entry found, none, an
  exception of the callback, or a timestamp outside the model.
\<close>

datatype 'a lookup = Found 'a | NotFound | Throws js_error | OutsideModel

fun findTargetEntry :: "int \<Rightarrow> string \<Rightarrow> target_entry list \<Rightarrow> target_entry lookup" where
  "findTargetEntry tz dateStr [] = NotFound"
| "findTargetEntry tz dateStr (entry # rest) =
     (case timestamp entry of
        None \<Rightarrow> Throws (TypeError ''entry.timestamp.trim is not a function'')
      | Some ts \<Rightarrow>
          (case entryDate tz ts of
             None \<Rightarrow> OutsideModel
           | Some isoDay \<Rightarrow> if isoDay = dateStr then Found entry else findTargetEntry tz dateStr rest))"

section \<open>Notions used in the statements\<close>

text \<open>The (sid, date) pairs of a table, and the uniqueness constraint on them.\<close>

definition rowKeys :: "score_record list \<Rightarrow> (nat \<times> string) list" where
  "rowKeys rows = map (\<lambda>row. (sid row, date row)) rows"

definition uniqueKeys :: "score_record list \<Rightarrow> bool" where
  "uniqueKeys rows = distinct (rowKeys rows)"

text \<open>
  The operations of the pipeline on the store: one call of \<^verbatim>\<open>insertScore\<close>, one whole
  incremental run, one batch update of the backfill. Each one runs against an upstream and
  a database of its own.
\<close>

datatype operation =
    InsertScore env score_record
  | IncrementalRun env
  | BackfillBatch env "target_update list"

fun perform :: "operation \<Rightarrow> state \<Rightarrow> state" where
  "perform (InsertScore e r) s = snd (insertScore e r s)"
| "perform (IncrementalRun e) s = snd (fetchAndInsertRecords e s)"
| "perform (BackfillBatch e updates) s = snd (batchUpdate e updates s)"

fun performAll :: "operation list \<Rightarrow> state \<Rightarrow> state" where
  "performAll [] s = s"
| "performAll (x # xs) s = performAll xs (perform x s)"

text \<open>The state after one turn of the loop over a batch.\<close>

definition siteStep :: "env \<Rightarrow> site \<Rightarrow> state \<Rightarrow> state" where
  "siteStep e st s = snd (processSite e st s)"

text \<open>The overview request of a site succeeds and its body has the \<^verbatim>\<open>a11y\<close> object.\<close>

definition hasScores :: "env \<Rightarrow> site \<Rightarrow> bool" where
  "hasScores e st = (case overview e (site_id st) of Inr (Some p) \<Rightarrow> True | _ \<Rightarrow> False)"

text \<open>The number of calls of the writer that the counters account for.\<close>

definition writerCalls :: "stats \<Rightarrow> nat" where
  "writerCalls c = inserted c + skippedExisting c + insertErrors c"

text \<open>A site, an overview payload whose ARIA score is no number, and the world around them.\<close>

definition exampleSite :: site where
  "exampleSite = \<lparr>site_id = 101, site_name = ''Alpha'', site_url = ''https://alpha.example'',
                   product = Some [''accessibility'']\<rparr>"

definition examplePayload :: a11y where
  "examplePayload = \<lparr>a11y_a = ''90'', a11y_aa = ''80'', a11y_aaa = ''70'', a11y_aria = ''n/a'',
                      a11y_total = ''85''\<rparr>"

definition exampleEntries :: "target_entry list" where
  "exampleEntries =
     [\<lparr>timestamp = Some ''2025-06-14 00:00:00'', site_target_percentage = Num 90\<rparr>,
      \<lparr>timestamp = Some ''2025-06-15 00:00:00'', site_target_percentage = Num 95\<rparr>]"

definition exampleEnv :: env where
  "exampleEnv =
     \<lparr>dbFails = (\<lambda>n. None), utcDate = (\<lambda>n. ''2025-06-15''), storedDate = (\<lambda>d. d),
      listSites = Inr (Some [exampleSite]),
      overview = (\<lambda>i. Inr (Some examplePayload)),
      targetHistory = (\<lambda>i. Inr (Some exampleEntries))\<rparr>"

definition emptyState :: state where
  "emptyState = \<lparr>ada_scores = [], error_logs = [], queries = 0, ticks = 0,
                  existingRecords = {}, stats = newStats\<rparr>"

text \<open>The same world with a target-history request that fails, with a history that has no
  entry for the day, with a response without scores next to a failing target-history
  request, and with a database that rejects the first statement it receives.\<close>

definition failingTargetEnv :: env where
  "failingTargetEnv = exampleEnv\<lparr>targetHistory := (\<lambda>i. Inl (AxiosError None ''timeout''))\<rparr>"

definition missingTargetEnv :: env where
  "missingTargetEnv = exampleEnv\<lparr>utcDate := (\<lambda>n. ''2025-06-16'')\<rparr>"

definition noScoresFailingTargetEnv :: env where
  "noScoresFailingTargetEnv =
     exampleEnv\<lparr>overview := (\<lambda>i. Inr None),
                targetHistory := (\<lambda>i. Inl (AxiosError None ''timeout''))\<rparr>"

definition rejectingEnv :: env where
  "rejectingEnv = exampleEnv\<lparr>dbFails := (\<lambda>n. if n = 0 then Some ''invalid input syntax for type integer'' else None)\<rparr>"

definition noScoresEnv :: env where
  "noScoresEnv = exampleEnv\<lparr>overview := (\<lambda>i. Inr None)\<rparr>"

definition failingOverviewEnv :: env where
  "failingOverviewEnv = exampleEnv\<lparr>overview := (\<lambda>i. Inl (AxiosError None ''timeout''))\<rparr>"

text \<open>The keys that \<^verbatim>\<open>fetchExistingRecords\<close> computes from a table.\<close>

definition storedKeys :: "env \<Rightarrow> score_record list \<Rightarrow> string set" where
  "storedKeys e rows = set (map (\<lambda>row. recordKey (sid row) (storedDate e (date row))) rows)"

text \<open>The state after the turns of the loop for a list of sites, in order.\<close>

definition runSites :: "env \<Rightarrow> site list \<Rightarrow> state \<Rightarrow> state" where
  "runSites e sites s = foldl (\<lambda>s st. siteStep e st s) s sites"

text \<open>The state in which the loop over the sites starts, once the index is loaded.\<close>

definition loaded :: "env \<Rightarrow> nat \<Rightarrow> state \<Rightarrow> state" where
  "loaded e n s =
     s\<lparr>queries := Suc (queries s),
       existingRecords := storedKeys e (ada_scores s),
       stats := newStats\<lparr>sitesPulled := n\<rparr>\<rparr>"

text \<open>A table with one row that has a target and one that has none, and an update for each.\<close>

definition exampleRows :: "score_record list" where
  "exampleRows =
     [\<lparr>sid = 101, name = ''Alpha'', url = ''https://alpha.example'', ada_a = Num 90,
       ada_aa = Num 80, ada_aaa = Num 70, ada_aria = Num 60, ada_score_total = Num 85,
       site_target_score = Some (Num 90), date = ''2025-06-15''\<rparr>,
      \<lparr>sid = 102, name = ''Beta'', url = ''https://beta.example'', ada_a = Num 91,
       ada_aa = Num 81, ada_aaa = Num 71, ada_aria = Num 61, ada_score_total = Num 86,
       site_target_score = None, date = ''2025-06-15''\<rparr>]"

definition exampleUpdates :: "target_update list" where
  "exampleUpdates =
     [\<lparr>u_sid = 101, u_date = ''2025-06-15'', u_score = 95\<rparr>,
      \<lparr>u_sid = 102, u_date = ''2025-06-15'', u_score = 75\<rparr>]"

text \<open>A sequence of operations on the example table: a run, a batch update and one more insert
  of a row whose key is present.\<close>

definition exampleOperations :: "operation list" where
  "exampleOperations =
     [IncrementalRun exampleEnv, BackfillBatch exampleEnv exampleUpdates,
      InsertScore exampleEnv (hd exampleRows)]"

text \<open>
  Every key of the in-memory index comes from a row of the table: it is the key computed
  when the index was loaded, or the key of a row that this run inserted.
\<close>

definition indexSound :: "env \<Rightarrow> state \<Rightarrow> bool" where
  "indexSound e s \<longleftrightarrow>
     existingRecords s \<subseteq>
       storedKeys e (ada_scores s) \<union> (\<lambda>row. recordKey (sid row) (date row)) ` set (ada_scores s)"

text \<open>
  The table accounts for the pair (sid, date): a run that loads its index from the table
  finds the key in the index, or the INSERT finds a conflicting row.
\<close>

definition covered :: "env \<Rightarrow> score_record list \<Rightarrow> nat \<Rightarrow> string \<Rightarrow> bool" where
  "covered e rows i d \<longleftrightarrow> recordKey i d \<in> storedKeys e rows \<or> conflicts rows i d"

text \<open>The scenario of three sites, one of which has its row for the day.\<close>

definition threeSites :: "site list" where
  "threeSites =
     [\<lparr>site_id = 101, site_name = ''Alpha'', site_url = ''https://alpha.example'',
       product = Some [''accessibility'']\<rparr>,
      \<lparr>site_id = 102, site_name = ''Beta'', site_url = ''https://beta.example'',
       product = Some [''accessibility'', ''seo'']\<rparr>,
      \<lparr>site_id = 103, site_name = ''Gamma'', site_url = ''https://gamma.example'',
       product = Some [''accessibility'']\<rparr>]"

definition threeSitesEnv :: env where
  "threeSitesEnv = exampleEnv\<lparr>listSites := Inr (Some threeSites)\<rparr>"

definition oneRowState :: state where
  "oneRowState = emptyState\<lparr>ada_scores := [hd exampleRows]\<rparr>"

text \<open>The same scenario with a second site whose overview request fails, with a database
  that rejects the INSERT for the first site, and with a database that rejects the first
  statement, the load of the index.\<close>

definition failingSiteEnv :: env where
  "failingSiteEnv =
     threeSitesEnv\<lparr>overview := (\<lambda>i. if i = 102
        then Inl (AxiosError (Some \<lparr>status = 500, retry_after = None\<rparr>) ''Request failed with status code 500'')
        else Inr (Some examplePayload))\<rparr>"

definition failingInsertEnv :: env where
  "failingInsertEnv = threeSitesEnv\<lparr>dbFails := (\<lambda>n. if n = 1 then Some ''deadlock detected'' else None)\<rparr>"

definition failingLoadEnv :: env where
  "failingLoadEnv = threeSitesEnv\<lparr>dbFails := (\<lambda>n. if n = 0 then Some ''connection refused'' else None)\<rparr>"

section \<open>Properties\<close>

subsection \<open>The rate-limited fetcher\<close>


lemma backoffLoop_stop:
  "attempt \<le> retries \<Longrightarrow> \<not> rateLimited get attempt \<Longrightarrow>
   backoffLoop get retries attempt d w = (get attempt, w, attempt)"
  by (subst backoffLoop.simps) (auto simp: rateLimited_def split: sum.splits)

lemma backoffLoop_retry:
  "attempt \<le> retries \<Longrightarrow> get attempt = Inl e \<Longrightarrow> isRateLimit e \<Longrightarrow>
   backoffLoop get retries attempt d w =
   backoffLoop get retries (Suc attempt) (d * 2) (w @ [waitTime e d])"
  by (subst backoffLoop.simps) simp

lemma backoffLoop_exhausted:
  "\<not> attempt \<le> retries \<Longrightarrow>
   backoffLoop get retries attempt d w = (Inl (Error ''Max retries exceeded''), w, attempt - 1)"
  by (subst backoffLoop.simps) simp

lemma rateLimitedE:
  "rateLimited get j \<Longrightarrow> \<exists>e. get j = Inl e \<and> isRateLimit e"
  by (auto simp: rateLimited_def split: sum.splits)

lemma backoffLoop_first_other:
  "a \<le> k \<Longrightarrow> k \<le> retries \<Longrightarrow> \<not> rateLimited get k \<Longrightarrow>
   (\<And>j. a \<le> j \<Longrightarrow> j < k \<Longrightarrow> rateLimited get j) \<Longrightarrow>
   \<exists>ws. backoffLoop get retries a d w = (get k, ws, k)"
proof (induction "k - a" arbitrary: a d w)
  case 0
  then have "a = k" by simp
  with 0 show ?case by (simp add: backoffLoop_stop)
next
  case (Suc n)
  then have lt: "a < k" by simp
  then have "rateLimited get a" using Suc.prems(4) by simp
  then obtain e where e: "get a = Inl e" "isRateLimit e" using rateLimitedE by blast
  have step: "backoffLoop get retries a d w =
      backoffLoop get retries (Suc a) (d * 2) (w @ [waitTime e d])"
    using backoffLoop_retry[of a retries get e d w] e lt Suc.prems(2) by simp
  have "\<exists>ws. backoffLoop get retries (Suc a) (d * 2) (w @ [waitTime e d]) = (get k, ws, k)"
  proof (rule Suc.hyps(1))
    show "n = k - Suc a" using Suc.hyps(2) by simp
    show "Suc a \<le> k" using lt by simp
    show "k \<le> retries" by (rule Suc.prems(2))
    show "\<not> rateLimited get k" by (rule Suc.prems(3))
    show "\<And>j. Suc a \<le> j \<Longrightarrow> j < k \<Longrightarrow> rateLimited get j" using Suc.prems(4) by simp
  qed
  with step show ?case by simp
qed

lemma backoffLoop_all_limited:
  "a \<le> Suc retries \<Longrightarrow> (\<And>j. a \<le> j \<Longrightarrow> j \<le> retries \<Longrightarrow> rateLimited get j) \<Longrightarrow>
   \<exists>ws. backoffLoop get retries a d w = (Inl (Error ''Max retries exceeded''), ws, retries)"
proof (induction "Suc retries - a" arbitrary: a d w)
  case 0
  then have "a = Suc retries" by simp
  then show ?case by (simp add: backoffLoop_exhausted)
next
  case (Suc n)
  then have le: "a \<le> retries" by simp
  then have "rateLimited get a" using Suc.prems(2) by simp
  then obtain e where e: "get a = Inl e" "isRateLimit e" using rateLimitedE by blast
  have step: "backoffLoop get retries a d w =
      backoffLoop get retries (Suc a) (d * 2) (w @ [waitTime e d])"
    using backoffLoop_retry[of a retries get e d w] e le by simp
  have "\<exists>ws. backoffLoop get retries (Suc a) (d * 2) (w @ [waitTime e d])
           = (Inl (Error ''Max retries exceeded''), ws, retries)"
  proof (rule Suc.hyps(1))
    show "n = Suc retries - Suc a" using Suc.hyps(2) by simp
    show "Suc a \<le> Suc retries" using le by simp
    show "\<And>j. Suc a \<le> j \<Longrightarrow> j \<le> retries \<Longrightarrow> rateLimited get j" using Suc.prems(2) by simp
  qed
  with step show ?case by simp
qed

text \<open>The waits: one per rate-limit response met, the k-th without a server delay being d * 2^k.\<close>

lemma backoffLoop_waits:
  "a \<le> Suc retries \<Longrightarrow> backoffLoop get retries a d w = (out, ws, calls) \<Longrightarrow>
   \<exists>n. a + n \<le> Suc retries \<and> length ws = length w + n \<and>
     ((\<forall>j. a \<le> j \<and> j \<le> retries \<longrightarrow> \<not> serverDelay get j) \<longrightarrow>
        ws = w @ map (\<lambda>i. Num (int d * 2 ^ i)) [0..<n])"
proof (induction "Suc retries - a" arbitrary: a d w)
  case 0
  then have "a = Suc retries" by simp
  with 0 have "ws = w" by (simp add: backoffLoop_exhausted)
  then show ?case using 0 by (intro exI[of _ 0]) simp
next
  case (Suc m)
  then have le: "a \<le> retries" by simp
  show ?case
  proof (cases "rateLimited get a")
    case False
    with le Suc.prems have "ws = w" by (simp add: backoffLoop_stop)
    then show ?thesis using le by (intro exI[of _ 0]) simp
  next
    case True
    then obtain e where e: "get a = Inl e" "isRateLimit e" using rateLimitedE by blast
    have rec: "backoffLoop get retries (Suc a) (d * 2) (w @ [waitTime e d]) = (out, ws, calls)"
      using backoffLoop_retry[of a retries get e d w] e le Suc.prems(2) by simp
    have "\<exists>n. Suc a + n \<le> Suc retries \<and> length ws = length (w @ [waitTime e d]) + n \<and>
     ((\<forall>j. Suc a \<le> j \<and> j \<le> retries \<longrightarrow> \<not> serverDelay get j) \<longrightarrow>
        ws = (w @ [waitTime e d]) @ map (\<lambda>i. Num (int (d * 2) * 2 ^ i)) [0..<n])"
    proof (rule Suc.hyps(1))
      show "m = Suc retries - Suc a" using Suc.hyps(2) by simp
      show "Suc a \<le> Suc retries" using le by simp
      show "backoffLoop get retries (Suc a) (d * 2) (w @ [waitTime e d]) = (out, ws, calls)"
        by (rule rec)
    qed
    then obtain n where n: "Suc a + n \<le> Suc retries"
        "length ws = length (w @ [waitTime e d]) + n"
        "(\<forall>j. Suc a \<le> j \<and> j \<le> retries \<longrightarrow> \<not> serverDelay get j) \<longrightarrow>
           ws = (w @ [waitTime e d]) @ map (\<lambda>i. Num (int (d * 2) * 2 ^ i)) [0..<n]"
      by blast
    have b: "(\<forall>j. a \<le> j \<and> j \<le> retries \<longrightarrow> \<not> serverDelay get j) \<longrightarrow>
           ws = w @ map (\<lambda>i. Num (int d * 2 ^ i)) [0..<Suc n]"
    proof
      assume h: "\<forall>j. a \<le> j \<and> j \<le> retries \<longrightarrow> \<not> serverDelay get j"
      then have "\<not> serverDelay get a" using le by simp
      then have wt: "waitTime e d = Num (int d)"
        using e by (auto simp: serverDelay_def waitTime_def split: option.splits)
      from h have "\<forall>j. Suc a \<le> j \<and> j \<le> retries \<longrightarrow> \<not> serverDelay get j" by simp
      with n(3) have "ws = (w @ [waitTime e d]) @ map (\<lambda>i. Num (int (d * 2) * 2 ^ i)) [0..<n]"
        by blast
      moreover have "map (\<lambda>i. Num (int d * 2 ^ i)) [0..<Suc n]
            = Num (int d) # map (\<lambda>i. Num (int (d * 2) * 2 ^ i)) [0..<n]"
        by (simp add: map_upt_Suc del: upt_Suc)
      ultimately show "ws = w @ map (\<lambda>i. Num (int d * 2 ^ i)) [0..<Suc n]"
        using wt by simp
    qed
    have "a + Suc n \<le> Suc retries" using n(1) by simp
    moreover have "length ws = length w + Suc n" using n(2) by simp
    ultimately show ?thesis using b by blast
  qed
qed



text \<open>
  Claim C4. \<^verbatim>\<open>fetchWithExponentialBackoff\<close> calls again only after a rate-limit (HTTP 429)
  response: every call before the last one met a 429. If some call within the retry budget
  is not a 429, the first such call is the last one made and its outcome, a response or
  the error it threw, is the outcome of the whole function, so a failure that is not a
  rate limit propagates at once. If every call of the budget (5 by default) is a 429, the
  function throws the error \<^verbatim>\<open>Max retries exceeded\<close> and returns no response.
\<close>

theorem fetchWithExponentialBackoff_retries_only_rate_limit:
  "fetchWithExponentialBackoff get retries delay = (out, ws, calls) \<Longrightarrow>
     calls \<le> retries \<and> (\<forall>j. 1 \<le> j \<and> j < calls \<longrightarrow> rateLimited get j) \<and>
     (if \<exists>k. 1 \<le> k \<and> k \<le> retries \<and> \<not> rateLimited get k
      then 1 \<le> calls \<and> \<not> rateLimited get calls \<and> out = get calls
      else out = Inl (Error ''Max retries exceeded'') \<and> calls = retries)"
proof -
  assume run: "fetchWithExponentialBackoff get retries delay = (out, ws, calls)"
  let ?P = "\<lambda>k. 1 \<le> k \<and> k \<le> retries \<and> \<not> rateLimited get k"
  show ?thesis
  proof (cases "\<exists>k. ?P k")
    case True
    define k where "k = (LEAST k. ?P k)"
    from True have Pk: "?P k" unfolding k_def by (rule LeastI_ex)
    have least: "\<And>j. 1 \<le> j \<Longrightarrow> j < k \<Longrightarrow> rateLimited get j"
    proof -
      fix j assume j: "1 \<le> j" "j < k"
      have "\<not> ?P j" using j(2) not_less_Least unfolding k_def by blast
      with j Pk show "rateLimited get j" by simp
    qed
    from Pk least obtain ws' where "backoffLoop get retries 1 delay [] = (get k, ws', k)"
      using backoffLoop_first_other[of 1 k retries get delay "[]"] by blast
    with run have r: "out = get k" "calls = k"
      by (simp_all add: fetchWithExponentialBackoff_def)
    have "calls \<le> retries" using r Pk by simp
    moreover have "\<forall>j. 1 \<le> j \<and> j < calls \<longrightarrow> rateLimited get j" using least r by simp
    moreover have "1 \<le> calls \<and> \<not> rateLimited get calls \<and> out = get calls" using r Pk by simp
    ultimately show ?thesis by (simp only: True if_True simp_thms)
  next
    case False
    then have all: "\<And>j. 1 \<le> j \<Longrightarrow> j \<le> retries \<Longrightarrow> rateLimited get j" by blast
    then obtain ws' where
      "backoffLoop get retries 1 delay [] = (Inl (Error ''Max retries exceeded''), ws', retries)"
      using backoffLoop_all_limited[of 1 retries get delay "[]"] by auto
    with run have r: "out = Inl (Error ''Max retries exceeded'') \<and> calls = retries"
      by (simp add: fetchWithExponentialBackoff_def)
    have "calls \<le> retries" using r by simp
    moreover have "\<forall>j. 1 \<le> j \<and> j < calls \<longrightarrow> rateLimited get j" using all r by simp
    ultimately show ?thesis using r by (simp only: False if_False simp_thms)
  qed
qed

theorem fetchWithExponentialBackoff_retries_only_rate_limit_witness:
  "fetchWithExponentialBackoff
      (\<lambda>k. if k = 1 then Inl (AxiosError (Some \<lparr>status = 429, retry_after = None\<rparr>) ''Too Many Requests'')
            else (Inl (AxiosError (Some \<lparr>status = 500, retry_after = None\<rparr>) ''Server Error'') :: js_error + unit))
      DEFAULT_RETRIES DEFAULT_DELAY
    = (Inl (AxiosError (Some \<lparr>status = 500, retry_after = None\<rparr>) ''Server Error''), [Num 1000], 2)
   \<and> (2::nat) \<le> DEFAULT_RETRIES
   \<and> \<not> isRateLimit (AxiosError (Some \<lparr>status = 500, retry_after = None\<rparr>) ''Server Error'')"
proof -
  let ?get = "\<lambda>k::nat. if k = 1 then Inl (AxiosError (Some \<lparr>status = 429, retry_after = None\<rparr>) ''Too Many Requests'')
            else (Inl (AxiosError (Some \<lparr>status = 500, retry_after = None\<rparr>) ''Server Error'') :: js_error + unit)"
  have run: "fetchWithExponentialBackoff ?get DEFAULT_RETRIES DEFAULT_DELAY
     = (Inl (AxiosError (Some \<lparr>status = 500, retry_after = None\<rparr>) ''Server Error''), [Num 1000], 2)"
    by (simp add: fetchWithExponentialBackoff_def DEFAULT_RETRIES_def DEFAULT_DELAY_def
        backoffLoop.simps isRateLimit_def waitTime_def retryAfterOf_def)
  from fetchWithExponentialBackoff_retries_only_rate_limit[OF run]
  have "(2::nat) \<le> DEFAULT_RETRIES" by (rule conjunct1)
  moreover have "\<not> isRateLimit (AxiosError (Some \<lparr>status = 500, retry_after = None\<rparr>) ''Server Error'')"
    by (simp add: isRateLimit_def)
  ultimately show ?thesis using run by (simp only: simp_thms)
qed

text \<open>
  Claim C5. The number of waits of \<^verbatim>\<open>fetchWithExponentialBackoff\<close> is at most the retry
  count. When no rate-limit response carries a \<^verbatim>\<open>retry-after\<close> header, the \<open>i\<close>-th wait is
  the base delay (1000 ms by default) times \<open>2 ^ i\<close>: each wait is double the one before, and
  the waits are non-decreasing.
\<close>

theorem backoff_waits_double:
  "fetchWithExponentialBackoff get retries delay = (out, ws, calls) \<Longrightarrow>
   length ws \<le> retries \<and>
   ((\<forall>j. 1 \<le> j \<and> j \<le> retries \<longrightarrow> \<not> serverDelay get j) \<longrightarrow>
      ws = map (\<lambda>i. Num (int delay * 2 ^ i)) [0..<length ws] \<and>
      (\<forall>i. Suc i < length ws \<longrightarrow> ws ! Suc i = jsTimes (ws ! i) 2) \<and>
      sorted (map (\<lambda>i. int delay * 2 ^ i) [0..<length ws]))"
proof -
  assume run: "fetchWithExponentialBackoff get retries delay = (out, ws, calls)"
  then have "backoffLoop get retries 1 delay [] = (out, ws, calls)"
    by (simp add: fetchWithExponentialBackoff_def)
  from backoffLoop_waits[OF _ this]
  obtain n where n: "1 + n \<le> Suc retries" "length ws = length ([] :: int jsnum list) + n"
    "(\<forall>j. 1 \<le> j \<and> j \<le> retries \<longrightarrow> \<not> serverDelay get j) \<longrightarrow>
        ws = [] @ map (\<lambda>i. Num (int delay * 2 ^ i)) [0..<n]"
    by auto
  have len: "length ws \<le> retries" using n(1,2) by simp
  have dbl: "(\<forall>j. 1 \<le> j \<and> j \<le> retries \<longrightarrow> \<not> serverDelay get j) \<longrightarrow>
      ws = map (\<lambda>i. Num (int delay * 2 ^ i)) [0..<length ws] \<and>
      (\<forall>i. Suc i < length ws \<longrightarrow> ws ! Suc i = jsTimes (ws ! i) 2)"
  proof
    assume "\<forall>j. 1 \<le> j \<and> j \<le> retries \<longrightarrow> \<not> serverDelay get j"
    with n(3) have eq: "ws = map (\<lambda>i. Num (int delay * 2 ^ i)) [0..<n]" by simp
    then have ln: "length ws = n" by simp
    have "\<forall>i. Suc i < length ws \<longrightarrow> ws ! Suc i = jsTimes (ws ! i) 2"
    proof (intro allI impI)
      fix i assume "Suc i < length ws"
      then have "Suc i < n" using ln by simp
      then show "ws ! Suc i = jsTimes (ws ! i) 2" by (simp add: eq)
    qed
    with eq ln show "ws = map (\<lambda>i. Num (int delay * 2 ^ i)) [0..<length ws] \<and>
      (\<forall>i. Suc i < length ws \<longrightarrow> ws ! Suc i = jsTimes (ws ! i) 2)" by simp
  qed
  have "sorted (map (\<lambda>i. int delay * 2 ^ i) [0..<m])" for m
    unfolding sorted_map
    by (rule sorted_wrt_mono_rel[OF _ sorted_wrt_upt]) (simp add: mult_left_mono power_increasing)
  with len dbl show ?thesis by blast
qed

theorem backoff_waits_double_witness:
  "fetchWithExponentialBackoff
      (\<lambda>k. Inl (AxiosError (Some \<lparr>status = 429, retry_after = None\<rparr>) ''Too Many Requests'') :: js_error + unit)
      DEFAULT_RETRIES DEFAULT_DELAY
    = (Inl (Error ''Max retries exceeded''), [Num 1000, Num 2000, Num 4000, Num 8000, Num 16000], 5)
   \<and> length [Num 1000, Num 2000, Num 4000, Num 8000, Num (16000::int)] \<le> DEFAULT_RETRIES
   \<and> sorted (map (\<lambda>i. int DEFAULT_DELAY * 2 ^ i)
         [0..<length [Num 1000, Num 2000, Num 4000, Num 8000, Num (16000::int)]])"
proof -
  let ?get = "\<lambda>k::nat. Inl (AxiosError (Some \<lparr>status = 429, retry_after = None\<rparr>) ''Too Many Requests'') :: js_error + unit"
  have run: "fetchWithExponentialBackoff ?get DEFAULT_RETRIES DEFAULT_DELAY
    = (Inl (Error ''Max retries exceeded''), [Num 1000, Num 2000, Num 4000, Num 8000, Num 16000], 5)"
    by (simp add: fetchWithExponentialBackoff_def DEFAULT_RETRIES_def DEFAULT_DELAY_def
        backoffLoop.simps isRateLimit_def waitTime_def retryAfterOf_def)
  have free: "\<forall>j. 1 \<le> j \<and> j \<le> DEFAULT_RETRIES \<longrightarrow> \<not> serverDelay ?get j"
    by (simp add: serverDelay_def retryAfterOf_def truthy_def)
  from backoff_waits_double[OF run] free
  have "length [Num 1000, Num 2000, Num 4000, Num 8000, Num (16000::int)] \<le> DEFAULT_RETRIES"
    and "sorted (map (\<lambda>i. int DEFAULT_DELAY * 2 ^ i)
           [0..<length [Num 1000, Num 2000, Num 4000, Num 8000, Num (16000::int)]])"
    by blast+
  with run show ?thesis by (intro conjI)
qed




subsection \<open>The pool and the error sink\<close>

lemma pool_query_cases:
  "pool_query e stmt s =
     (case dbFails e (queries s) of
        Some m \<Rightarrow> (Inl (DatabaseError m), s\<lparr>queries := Suc (queries s)\<rparr>)
      | None \<Rightarrow> (Inr (fst (stmt (s\<lparr>queries := Suc (queries s)\<rparr>))), snd (stmt (s\<lparr>queries := Suc (queries s)\<rparr>))))"
  by (simp add: pool_query_def Let_def split: option.splits prod.splits)

lemma logErrorToDatabase_eq:
  "logErrorToDatabase e siteId siteName msg level s =
     (Inr (),
      (case dbFails e (queries s) of
         Some m \<Rightarrow> s\<lparr>queries := Suc (queries s)\<rparr>
       | None \<Rightarrow> s\<lparr>queries := Suc (queries s),
                   error_logs := error_logs s @
                     [\<lparr>log_site_id = idOrNull siteId, log_site_name = nameOrNull siteName,
                       log_message = msg, log_level = level\<rparr>]\<rparr>))"
  by (simp add: logErrorToDatabase_def pool_query_cases INSERT_error_logs_def split: option.splits)

lemma logErrorToDatabase_fst [simp]:
  "fst (logErrorToDatabase e siteId siteName msg level s) = Inr ()"
  by (simp add: logErrorToDatabase_eq)

lemma logErrorToDatabase_frame [simp]:
  "ada_scores (snd (logErrorToDatabase e siteId siteName msg level s)) = ada_scores s"
  "existingRecords (snd (logErrorToDatabase e siteId siteName msg level s)) = existingRecords s"
  "stats (snd (logErrorToDatabase e siteId siteName msg level s)) = stats s"
  "ticks (snd (logErrorToDatabase e siteId siteName msg level s)) = ticks s"
  by (simp_all add: logErrorToDatabase_eq split: option.splits)

lemma logErrorToDatabase_pair:
  "logErrorToDatabase e siteId siteName msg level s =
     (Inr (), snd (logErrorToDatabase e siteId siteName msg level s))"
  by (simp add: logErrorToDatabase_eq)

text \<open>
  Claim C10. \<^verbatim>\<open>logErrorToDatabase\<close> never raises: whatever the arguments and whether the
  database accepts or rejects the INSERT, the call returns normally. The rows of
  \<^verbatim>\<open>ada_scores\<close> are untouched, and the entry is in \<^verbatim>\<open>error_logs\<close> exactly when the
  database accepted it, so the log is best-effort.
\<close>

theorem logErrorToDatabase_never_raises:
  "\<exists>s'. logErrorToDatabase e siteId siteName errorMessage level s = (Inr (), s') \<and>
        ada_scores s' = ada_scores s \<and>
        error_logs s' = error_logs s @
          (case dbFails e (queries s) of
             Some m \<Rightarrow> []
           | None \<Rightarrow> [\<lparr>log_site_id = idOrNull siteId, log_site_name = nameOrNull siteName,
                        log_message = errorMessage, log_level = level\<rparr>])"
  by (simp add: logErrorToDatabase_eq split: option.splits)

subsection \<open>insertScore\<close>

lemma incr_frame [simp]:
  "ada_scores (incr_processed s) = ada_scores s"
  "ada_scores (incr_inserted s) = ada_scores s"
  "ada_scores (incr_skippedExisting s) = ada_scores s"
  "ada_scores (incr_targetInfoNotes s) = ada_scores s"
  "ada_scores (incr_targetErrors s) = ada_scores s"
  "ada_scores (incr_insertErrors s) = ada_scores s"
  "existingRecords (incr_processed s) = existingRecords s"
  "existingRecords (incr_inserted s) = existingRecords s"
  "existingRecords (incr_skippedExisting s) = existingRecords s"
  "existingRecords (incr_targetInfoNotes s) = existingRecords s"
  "existingRecords (incr_targetErrors s) = existingRecords s"
  "existingRecords (incr_insertErrors s) = existingRecords s"
  "queries (incr_processed s) = queries s"
  "queries (incr_inserted s) = queries s"
  "queries (incr_skippedExisting s) = queries s"
  "queries (incr_targetInfoNotes s) = queries s"
  "queries (incr_targetErrors s) = queries s"
  "queries (incr_insertErrors s) = queries s"
  "ticks (incr_processed s) = ticks s"
  "ticks (incr_inserted s) = ticks s"
  "ticks (incr_skippedExisting s) = ticks s"
  "ticks (incr_targetInfoNotes s) = ticks s"
  "ticks (incr_targetErrors s) = ticks s"
  "ticks (incr_insertErrors s) = ticks s"
  by (simp_all add: incr_processed_def incr_inserted_def incr_skippedExisting_def
      incr_targetInfoNotes_def incr_targetErrors_def incr_insertErrors_def)

lemma insertScore_eq:
  "insertScore e r s =
     (if recordKey (sid r) (date r) \<in> existingRecords s then (Inr False, incr_skippedExisting s)
      else
        (case dbFails e (queries s) of
           Some m \<Rightarrow>
             (Inr False,
              snd (logErrorToDatabase e (Some (sid r)) (name r) m ''ERROR''
                     (incr_insertErrors (s\<lparr>queries := Suc (queries s)\<rparr>))))
         | None \<Rightarrow>
             if conflicts (ada_scores s) (sid r) (date r)
             then (Inr False, incr_skippedExisting (s\<lparr>queries := Suc (queries s)\<rparr>))
             else (Inr True,
                   (incr_inserted (s\<lparr>queries := Suc (queries s), ada_scores := ada_scores s @ [r]\<rparr>))
                     \<lparr>existingRecords := insert (recordKey (sid r) (date r)) (existingRecords s)\<rparr>)))"
  by (simp add: insertScore_def Let_def pool_query_cases INSERT_ada_scores_def logErrorToDatabase_eq
      split: option.splits)

lemma insertScore_noraise: "\<exists>b. fst (insertScore e r s) = Inr b"
  by (auto simp add: insertScore_eq split: option.splits)

subsection \<open>The per-site step\<close>

lemma targetTry_frame [simp]:
  "ada_scores (snd (targetTry e st s)) = ada_scores s"
  "existingRecords (snd (targetTry e st s)) = existingRecords s"
  by (simp_all add: targetTry_def readDate_def logErrorToDatabase_eq
      split: sum.splits option.splits prod.splits)

lemma targetLookup_noraise: "\<exists>t. fst (targetLookup e st s) = Inr t"
  by (simp add: targetLookup_def logErrorToDatabase_eq split: sum.splits prod.splits)

lemma targetLookup_frame [simp]:
  "ada_scores (snd (targetLookup e st s)) = ada_scores s"
  "existingRecords (snd (targetLookup e st s)) = existingRecords s"
  by (auto simp add: targetLookup_def logErrorToDatabase_eq
      split: sum.splits option.splits prod.splits
      dest: arg_cong[where f = "\<lambda>p. ada_scores (snd p)"] arg_cong[where f = "\<lambda>p. existingRecords (snd p)"])

lemma processSite_pair: "processSite e st s = (Inr (), siteStep e st s)"
  by (simp add: processSite_def siteStep_def readDate_def logErrorToDatabase_eq
      split: sum.splits prod.splits)

lemma processBatch_eq: "processBatch e sites s = (Inr (), foldl (\<lambda>s st. siteStep e st s) s sites)"
  by (induction sites arbitrary: s) (simp_all add: processSite_pair)

lemma batchLoop_eq:
  "batchLoop e sites i s = (Inr (), foldl (\<lambda>s st. siteStep e st s) s (drop i sites))"
proof (induction e sites i s rule: batchLoop.induct)
  case (1 e sites i s)
  show ?case
  proof (cases "i < length sites")
    case False
    then show ?thesis by (subst batchLoop.simps) simp
  next
    case True
    let ?s1 = "foldl (\<lambda>s st. siteStep e st s) s (slice sites i (i + 20))"
    have pb: "processBatch e (slice sites i (i + 20)) s = (Inr (), ?s1)" by (rule processBatch_eq)
    have "batchLoop e sites i s = batchLoop e sites (i + 20) ?s1"
      using True by (subst batchLoop.simps) (simp add: pb)
    also have "\<dots> = (Inr (), foldl (\<lambda>s st. siteStep e st s) ?s1 (drop (i + 20) sites))"
      using "1.IH"[OF True pb[symmetric] refl] .
    also have "foldl (\<lambda>s st. siteStep e st s) ?s1 (drop (i + 20) sites)
        = foldl (\<lambda>s st. siteStep e st s) s (slice sites i (i + 20) @ drop (i + 20) sites)"
      by simp
    also have "slice sites i (i + 20) @ drop (i + 20) sites = drop i sites"
      by (simp add: slice_def add.commute[of i 20] drop_drop[symmetric] del: drop_drop)
    finally show ?thesis .
  qed
qed




subsection \<open>The target lookup and the record of a site\<close>

lemma targetLookup_error:
  "targetHistory e (site_id st) = Inl err \<Longrightarrow>
   targetLookup e st s =
     (Inr None,
      snd (logErrorToDatabase e (Some (site_id st)) (site_name st)
             (''Target score fetch error: '' @ message err) ''INFO'' (incr_targetErrors s)))"
  by (simp add: targetLookup_def targetTry_def logErrorToDatabase_eq)

lemma targetLookup_missing:
  "targetHistory e (site_id st) = Inr items \<Longrightarrow>
   find (isTodayEntry (utcDate e (ticks s))) (case items of None \<Rightarrow> [] | Some xs \<Rightarrow> xs) = None \<Longrightarrow>
   targetLookup e st s =
     (Inr None,
      snd (logErrorToDatabase e (Some (site_id st)) (site_name st)
             ''No site_target_percentage entry for today'' ''INFO''
             (incr_targetInfoNotes (s\<lparr>ticks := Suc (ticks s)\<rparr>))))"
  by (simp add: targetLookup_def targetTry_def readDate_def logErrorToDatabase_eq)

lemma targetLookup_found:
  "targetHistory e (site_id st) = Inr items \<Longrightarrow>
   find (isTodayEntry (utcDate e (ticks s))) (case items of None \<Rightarrow> [] | Some xs \<Rightarrow> xs) = Some entry \<Longrightarrow>
   targetLookup e st s = (Inr (Some (site_target_percentage entry)), s\<lparr>ticks := Suc (ticks s)\<rparr>)"
  by (simp add: targetLookup_def targetTry_def readDate_def)

lemma targetLookup_pair:
  "\<exists>t. targetLookup e st s = (Inr t, snd (targetLookup e st s))"
  using targetLookup_noraise[of e st s] by (cases "targetLookup e st s") auto

lemma siteStep_scores:
  assumes "overview e (site_id st) = Inr (Some p)"
    and "targetLookup e st (incr_processed (s\<lparr>ticks := Suc (ticks s)\<rparr>)) = (Inr t, s1)"
  shows "siteStep e st s = snd (insertScore e (buildRecord st p t (utcDate e (ticks s))) s1)"
proof -
  obtain b where "fst (insertScore e (buildRecord st p t (utcDate e (ticks s))) s1) = Inr b"
    using insertScore_noraise by blast
  then show ?thesis using assms
    by (cases "insertScore e (buildRecord st p t (utcDate e (ticks s))) s1")
       (simp add: siteStep_def processSite_def readDate_def siteTry_def)
qed

lemma siteStep_no_scores:
  assumes "overview e (site_id st) = Inr None"
  shows "siteStep e st s =
     snd (logErrorToDatabase e (Some (site_id st)) (site_name st)
            (''Approved site failed during processing: '' @
             ''Cannot destructure property a of undefined'') ''WARNING''
            (snd (targetLookup e st (incr_processed (s\<lparr>ticks := Suc (ticks s)\<rparr>)))))"
proof -
  obtain t s1 where "targetLookup e st (incr_processed (s\<lparr>ticks := Suc (ticks s)\<rparr>)) = (Inr t, s1)"
    using targetLookup_pair by blast
  then show ?thesis using assms
    by (simp add: siteStep_def processSite_def readDate_def siteTry_def)
qed

lemma siteStep_overview_fails:
  assumes "overview e (site_id st) = Inl err"
  shows "siteStep e st s =
     snd (logErrorToDatabase e (Some (site_id st)) (site_name st)
            (''Approved site failed during processing: '' @ message err) ''WARNING''
            (incr_processed (s\<lparr>ticks := Suc (ticks s)\<rparr>)))"
  using assms by (simp add: siteStep_def processSite_def readDate_def siteTry_def)

lemma insertScore_stats:
  "processed (stats (snd (insertScore e r s))) = processed (stats s)"
  "sitesPulled (stats (snd (insertScore e r s))) = sitesPulled (stats s)"
  "targetErrors (stats (snd (insertScore e r s))) = targetErrors (stats s)"
  "targetInfoNotes (stats (snd (insertScore e r s))) = targetInfoNotes (stats s)"
  "writerCalls (stats (snd (insertScore e r s))) = Suc (writerCalls (stats s))"
  by (simp_all add: insertScore_eq writerCalls_def incr_skippedExisting_def incr_inserted_def
      incr_insertErrors_def split: option.splits)

lemma writerCalls_incr [simp]:
  "writerCalls (stats (incr_processed s)) = writerCalls (stats s)"
  "writerCalls (stats (incr_targetErrors s)) = writerCalls (stats s)"
  "writerCalls (stats (incr_targetInfoNotes s)) = writerCalls (stats s)"
  by (simp_all add: writerCalls_def incr_processed_def incr_targetErrors_def incr_targetInfoNotes_def)

lemma insertScore_logs:
  "\<exists>extra. error_logs (snd (insertScore e r s)) = error_logs s @ extra"
  by (simp add: insertScore_eq logErrorToDatabase_eq incr_skippedExisting_def incr_inserted_def
      incr_insertErrors_def split: option.splits)

lemma logErrorToDatabase_logged:
  "dbFails e (queries s) = None \<Longrightarrow>
   error_logs (snd (logErrorToDatabase e siteId siteName msg level s)) =
     error_logs s @ [\<lparr>log_site_id = idOrNull siteId, log_site_name = nameOrNull siteName,
                      log_message = msg, log_level = level\<rparr>]"
  by (simp add: logErrorToDatabase_eq)

text \<open>
  Claim C7, as the code has it. Let the overview request of a site succeed and its
  response carry the \<^verbatim>\<open>a11y\<close> object. If the target-history request fails, or no entry
  of the history starts with today's date, the site is not aborted: the record passed to
  \<^verbatim>\<open>insertScore\<close> has the id, name and url of the site, \<^verbatim>\<open>parseInt\<close> of the five
  compliance values, the date read at the start of the turn and \<^verbatim>\<open>site_target_score\<close>
  \<^verbatim>\<open>null\<close>. Before that \<^verbatim>\<open>logErrorToDatabase\<close> was called with level INFO and the counter
  \<^verbatim>\<open>targetErrors\<close> (on a failure) or \<^verbatim>\<open>targetInfoNotes\<close> (on a miss) was incremented. The
  note is in \<^verbatim>\<open>error_logs\<close> afterwards whenever the database accepted it.
\<close>

theorem target_failure_does_not_abort_site:
  assumes ov: "overview e (site_id st) = Inr (Some p)"
  shows
   "(\<forall>err. targetHistory e (site_id st) = Inl err \<longrightarrow>
       processSite e st s =
         (Inr (),
          snd (insertScore e (buildRecord st p None (utcDate e (ticks s)))
                 (snd (logErrorToDatabase e (Some (site_id st)) (site_name st)
                         (''Target score fetch error: '' @ message err) ''INFO''
                         (incr_targetErrors (incr_processed (s\<lparr>ticks := Suc (ticks s)\<rparr>))))))) \<and>
       targetErrors (stats (siteStep e st s)) = Suc (targetErrors (stats s)) \<and>
       writerCalls (stats (siteStep e st s)) = Suc (writerCalls (stats s)) \<and>
       (dbFails e (queries s) = None \<longrightarrow>
          \<lparr>log_site_id = idOrNull (Some (site_id st)), log_site_name = nameOrNull (site_name st),
           log_message = ''Target score fetch error: '' @ message err, log_level = ''INFO''\<rparr>
          \<in> set (error_logs (siteStep e st s)))) \<and>
    (\<forall>items. targetHistory e (site_id st) = Inr items \<and>
        find (isTodayEntry (utcDate e (Suc (ticks s))))
          (case items of None \<Rightarrow> [] | Some xs \<Rightarrow> xs) = None \<longrightarrow>
       processSite e st s =
         (Inr (),
          snd (insertScore e (buildRecord st p None (utcDate e (ticks s)))
                 (snd (logErrorToDatabase e (Some (site_id st)) (site_name st)
                         ''No site_target_percentage entry for today'' ''INFO''
                         (incr_targetInfoNotes
                            (incr_processed (s\<lparr>ticks := Suc (Suc (ticks s))\<rparr>))))))) \<and>
       targetInfoNotes (stats (siteStep e st s)) = Suc (targetInfoNotes (stats s)) \<and>
       writerCalls (stats (siteStep e st s)) = Suc (writerCalls (stats s)) \<and>
       (dbFails e (queries s) = None \<longrightarrow>
          \<lparr>log_site_id = idOrNull (Some (site_id st)), log_site_name = nameOrNull (site_name st),
           log_message = ''No site_target_percentage entry for today'', log_level = ''INFO''\<rparr>
          \<in> set (error_logs (siteStep e st s)))) \<and>
    buildRecord st p None (utcDate e (ticks s)) =
      \<lparr>sid = site_id st, name = site_name st, url = site_url st,
       ada_a = parseInt (a11y_a p), ada_aa = parseInt (a11y_aa p),
       ada_aaa = parseInt (a11y_aaa p), ada_aria = parseInt (a11y_aria p),
       ada_score_total = parseInt (a11y_total p),
       site_target_score = None, date = utcDate e (ticks s)\<rparr>"
proof (intro conjI allI impI)
  fix err assume th: "targetHistory e (site_id st) = Inl err"
  let ?s0 = "incr_processed (s\<lparr>ticks := Suc (ticks s)\<rparr>)"
  let ?s1 = "snd (logErrorToDatabase e (Some (site_id st)) (site_name st)
                (''Target score fetch error: '' @ message err) ''INFO'' (incr_targetErrors ?s0))"
  let ?r = "buildRecord st p None (utcDate e (ticks s))"
  have tl: "targetLookup e st ?s0 = (Inr None, ?s1)" by (rule targetLookup_error[OF th])
  have step: "siteStep e st s = snd (insertScore e ?r ?s1)" by (rule siteStep_scores[OF ov tl])
  show "processSite e st s = (Inr (), snd (insertScore e ?r ?s1))"
    using step by (simp add: processSite_pair)
  show "targetErrors (stats (siteStep e st s)) = Suc (targetErrors (stats s))"
    by (simp add: step insertScore_stats incr_targetErrors_def incr_processed_def)
  show "writerCalls (stats (siteStep e st s)) = Suc (writerCalls (stats s))"
    by (simp add: step insertScore_stats)
  assume ok: "dbFails e (queries s) = None"
  have "error_logs ?s1 = error_logs (incr_targetErrors ?s0) @
      [\<lparr>log_site_id = idOrNull (Some (site_id st)), log_site_name = nameOrNull (site_name st),
        log_message = ''Target score fetch error: '' @ message err, log_level = ''INFO''\<rparr>]"
    by (rule logErrorToDatabase_logged) (simp add: ok)
  moreover obtain extra where "error_logs (snd (insertScore e ?r ?s1)) = error_logs ?s1 @ extra"
    using insertScore_logs by blast
  ultimately show "\<lparr>log_site_id = idOrNull (Some (site_id st)), log_site_name = nameOrNull (site_name st),
           log_message = ''Target score fetch error: '' @ message err, log_level = ''INFO''\<rparr>
          \<in> set (error_logs (siteStep e st s))"
    by (simp add: step)
next
  fix items
  assume h: "targetHistory e (site_id st) = Inr items \<and>
        find (isTodayEntry (utcDate e (Suc (ticks s))))
          (case items of None \<Rightarrow> [] | Some xs \<Rightarrow> xs) = None"
  let ?s0 = "incr_processed (s\<lparr>ticks := Suc (ticks s)\<rparr>)"
  let ?s1 = "snd (logErrorToDatabase e (Some (site_id st)) (site_name st)
                ''No site_target_percentage entry for today'' ''INFO''
                (incr_targetInfoNotes (incr_processed (s\<lparr>ticks := Suc (Suc (ticks s))\<rparr>))))"
  let ?r = "buildRecord st p None (utcDate e (ticks s))"
  have "targetLookup e st ?s0 =
     (Inr None,
      snd (logErrorToDatabase e (Some (site_id st)) (site_name st)
             ''No site_target_percentage entry for today'' ''INFO''
             (incr_targetInfoNotes (?s0\<lparr>ticks := Suc (ticks ?s0)\<rparr>))))"
    by (rule targetLookup_missing[where items = items]) (simp_all add: h)
  moreover have "?s0\<lparr>ticks := Suc (ticks ?s0)\<rparr> = incr_processed (s\<lparr>ticks := Suc (Suc (ticks s))\<rparr>)"
    by (simp add: incr_processed_def)
  ultimately have tl: "targetLookup e st ?s0 = (Inr None, ?s1)"
    by (simp only:)
  have step: "siteStep e st s = snd (insertScore e ?r ?s1)" by (rule siteStep_scores[OF ov tl])
  show "processSite e st s = (Inr (), snd (insertScore e ?r ?s1))"
    using step by (simp add: processSite_pair)
  show "targetInfoNotes (stats (siteStep e st s)) = Suc (targetInfoNotes (stats s))"
    by (simp add: step insertScore_stats incr_targetInfoNotes_def incr_processed_def)
  show "writerCalls (stats (siteStep e st s)) = Suc (writerCalls (stats s))"
    by (simp add: step insertScore_stats)
  assume ok: "dbFails e (queries s) = None"
  have "error_logs ?s1 = error_logs (incr_targetInfoNotes (incr_processed (s\<lparr>ticks := Suc (Suc (ticks s))\<rparr>))) @
      [\<lparr>log_site_id = idOrNull (Some (site_id st)), log_site_name = nameOrNull (site_name st),
        log_message = ''No site_target_percentage entry for today'', log_level = ''INFO''\<rparr>]"
    by (rule logErrorToDatabase_logged) (simp add: ok)
  moreover obtain extra where "error_logs (snd (insertScore e ?r ?s1)) = error_logs ?s1 @ extra"
    using insertScore_logs by blast
  ultimately show "\<lparr>log_site_id = idOrNull (Some (site_id st)), log_site_name = nameOrNull (site_name st),
           log_message = ''No site_target_percentage entry for today'', log_level = ''INFO''\<rparr>
          \<in> set (error_logs (siteStep e st s))"
    by (simp add: step)
next
  show "buildRecord st p None (utcDate e (ticks s)) =
      \<lparr>sid = site_id st, name = site_name st, url = site_url st,
       ada_a = parseInt (a11y_a p), ada_aa = parseInt (a11y_aa p),
       ada_aaa = parseInt (a11y_aaa p), ada_aria = parseInt (a11y_aria p),
       ada_score_total = parseInt (a11y_total p),
       site_target_score = None, date = utcDate e (ticks s)\<rparr>"
    by (simp add: buildRecord_def)
qed


lemma targetLookup_stats:
  "writerCalls (stats (snd (targetLookup e st s))) = writerCalls (stats s)"
  "inserted (stats (snd (targetLookup e st s))) = inserted (stats s)"
  "skippedExisting (stats (snd (targetLookup e st s))) = skippedExisting (stats s)"
  "insertErrors (stats (snd (targetLookup e st s))) = insertErrors (stats s)"
  "processed (stats (snd (targetLookup e st s))) = processed (stats s)"
  "sitesPulled (stats (snd (targetLookup e st s))) = sitesPulled (stats s)"
  by (auto simp add: targetLookup_def targetTry_def readDate_def logErrorToDatabase_eq writerCalls_def
      incr_targetErrors_def incr_targetInfoNotes_def
      split: sum.splits option.splits prod.splits)

lemmas targetLookup_writerCalls = targetLookup_stats(1)



theorem target_failure_does_not_abort_site_witness:
  "overview failingTargetEnv (site_id exampleSite) = Inr (Some examplePayload) \<and>
   targetHistory failingTargetEnv (site_id exampleSite) = Inl (AxiosError None ''timeout'') \<and>
   dbFails failingTargetEnv (queries emptyState) = None \<and>
   targetErrors (stats (siteStep failingTargetEnv exampleSite emptyState)) = Suc (targetErrors (stats emptyState)) \<and>
   writerCalls (stats (siteStep failingTargetEnv exampleSite emptyState)) = Suc (writerCalls (stats emptyState)) \<and>
   \<lparr>log_site_id = idOrNull (Some (site_id exampleSite)), log_site_name = nameOrNull (site_name exampleSite),
    log_message = ''Target score fetch error: '' @ message (AxiosError None ''timeout''), log_level = ''INFO''\<rparr>
     \<in> set (error_logs (siteStep failingTargetEnv exampleSite emptyState)) \<and>
   overview missingTargetEnv (site_id exampleSite) = Inr (Some examplePayload) \<and>
   targetHistory missingTargetEnv (site_id exampleSite) = Inr (Some exampleEntries) \<and>
   find (isTodayEntry (utcDate missingTargetEnv (Suc (ticks emptyState)))) exampleEntries = None \<and>
   targetInfoNotes (stats (siteStep missingTargetEnv exampleSite emptyState)) = Suc (targetInfoNotes (stats emptyState)) \<and>
   writerCalls (stats (siteStep missingTargetEnv exampleSite emptyState)) = Suc (writerCalls (stats emptyState)) \<and>
   ada_scores (siteStep failingTargetEnv exampleSite emptyState) =
     [\<lparr>sid = 101, name = ''Alpha'', url = ''https://alpha.example'', ada_a = Num 90,
       ada_aa = Num 80, ada_aaa = Num 70, ada_aria = NaN, ada_score_total = Num 85,
       site_target_score = None, date = ''2025-06-15''\<rparr>]"
proof -
  have rec: "buildRecord exampleSite examplePayload None (utcDate failingTargetEnv (ticks emptyState)) =
     \<lparr>sid = 101, name = ''Alpha'', url = ''https://alpha.example'', ada_a = Num 90,
       ada_aa = Num 80, ada_aaa = Num 70, ada_aria = NaN, ada_score_total = Num 85,
       site_target_score = None, date = ''2025-06-15''\<rparr>"
    by (simp add: buildRecord_def exampleSite_def examplePayload_def failingTargetEnv_def
        exampleEnv_def parseInt_def isWhiteSpace_def isRadixDigit_def digitValue_def digitsValue_def)
  have ov: "overview failingTargetEnv (site_id exampleSite) = Inr (Some examplePayload)"
    by (simp add: failingTargetEnv_def exampleEnv_def)
  have th: "targetHistory failingTargetEnv (site_id exampleSite) = Inl (AxiosError None ''timeout'')"
    by (simp add: failingTargetEnv_def exampleEnv_def)
  have db: "dbFails failingTargetEnv (queries emptyState) = None"
    by (simp add: failingTargetEnv_def exampleEnv_def)
  have ov2: "overview missingTargetEnv (site_id exampleSite) = Inr (Some examplePayload)"
    by (simp add: missingTargetEnv_def exampleEnv_def)
  have th2: "targetHistory missingTargetEnv (site_id exampleSite) = Inr (Some exampleEntries)"
    by (simp add: missingTargetEnv_def exampleEnv_def)
  have miss: "find (isTodayEntry (utcDate missingTargetEnv (Suc (ticks emptyState)))) exampleEntries = None"
    by (simp add: missingTargetEnv_def exampleEnv_def exampleEntries_def isTodayEntry_def)
  have miss': "find (isTodayEntry (utcDate missingTargetEnv (Suc (ticks emptyState))))
      (case Some exampleEntries of None \<Rightarrow> [] | Some xs \<Rightarrow> xs) = None"
    using miss by simp
  note a = target_failure_does_not_abort_site[OF ov, of emptyState]
  note b = target_failure_does_not_abort_site[OF ov2, of emptyState]
  from a th have "processSite failingTargetEnv exampleSite emptyState =
         (Inr (),
          snd (insertScore failingTargetEnv
                 (buildRecord exampleSite examplePayload None (utcDate failingTargetEnv (ticks emptyState)))
                 (snd (logErrorToDatabase failingTargetEnv (Some (site_id exampleSite)) (site_name exampleSite)
                         (''Target score fetch error: '' @ message (AxiosError None ''timeout'')) ''INFO''
                         (incr_targetErrors (incr_processed (emptyState\<lparr>ticks := Suc (ticks emptyState)\<rparr>)))))))"
    by blast
  then have rows: "ada_scores (siteStep failingTargetEnv exampleSite emptyState) =
     [\<lparr>sid = 101, name = ''Alpha'', url = ''https://alpha.example'', ada_a = Num 90,
       ada_aa = Num 80, ada_aaa = Num 70, ada_aria = NaN, ada_score_total = Num 85,
       site_target_score = None, date = ''2025-06-15''\<rparr>]"
    unfolding siteStep_def rec
    by (simp add: insertScore_eq logErrorToDatabase_eq failingTargetEnv_def exampleEnv_def
        exampleSite_def emptyState_def newStats_def conflicts_def incr_targetErrors_def
        incr_processed_def incr_inserted_def)
  from a th db have
    "targetErrors (stats (siteStep failingTargetEnv exampleSite emptyState)) = Suc (targetErrors (stats emptyState))"
    "writerCalls (stats (siteStep failingTargetEnv exampleSite emptyState)) = Suc (writerCalls (stats emptyState))"
    "\<lparr>log_site_id = idOrNull (Some (site_id exampleSite)), log_site_name = nameOrNull (site_name exampleSite),
      log_message = ''Target score fetch error: '' @ message (AxiosError None ''timeout''), log_level = ''INFO''\<rparr>
     \<in> set (error_logs (siteStep failingTargetEnv exampleSite emptyState))"
    by blast+
  moreover from b th2 miss' have
    "targetInfoNotes (stats (siteStep missingTargetEnv exampleSite emptyState)) = Suc (targetInfoNotes (stats emptyState))"
    "writerCalls (stats (siteStep missingTargetEnv exampleSite emptyState)) = Suc (writerCalls (stats emptyState))"
    by blast+
  ultimately show ?thesis using ov th db ov2 th2 miss rows by (intro conjI)
qed

text \<open>
  The overview request succeeds with a response that has no \<^verbatim>\<open>a11y\<close> object and the
  target-history request fails: the INFO note is written, then the site is aborted with a
  WARNING, and the writer is not called.
\<close>

theorem target_failure_without_scores_counterexample:
  "overview noScoresFailingTargetEnv (site_id exampleSite) = Inr None \<and>
   targetHistory noScoresFailingTargetEnv (site_id exampleSite) = Inl (AxiosError None ''timeout'') \<and>
   writerCalls (stats (siteStep noScoresFailingTargetEnv exampleSite emptyState)) = 0 \<and>
   ada_scores (siteStep noScoresFailingTargetEnv exampleSite emptyState) = [] \<and>
   map log_level (error_logs (siteStep noScoresFailingTargetEnv exampleSite emptyState)) =
     [''INFO'', ''WARNING'']"
  by (simp add: noScoresFailingTargetEnv_def exampleEnv_def exampleSite_def emptyState_def
      newStats_def siteStep_def processSite_def readDate_def siteTry_def targetLookup_def
      targetTry_def logErrorToDatabase_eq incr_processed_def incr_targetErrors_def writerCalls_def)

text \<open>
  Claim C8, as the code has it. A compliance value that does not parse as an integer does
  not abort the site: whenever the overview response has the \<^verbatim>\<open>a11y\<close> object, the record is
  built with \<^verbatim>\<open>parseInt\<close> of each of the five values, \<^verbatim>\<open>NaN\<close> included, and passed to
  \<^verbatim>\<open>insertScore\<close>. The site is aborted before the writer only when the response has no
  \<^verbatim>\<open>a11y\<close> object or the overview request itself fails: then no row is written and the
  writer is not called.
\<close>

theorem unparsable_score_reaches_writer:
  "(overview e (site_id st) = Inr (Some p) \<longrightarrow>
      (\<exists>t s1. targetLookup e st (incr_processed (s\<lparr>ticks := Suc (ticks s)\<rparr>)) = (Inr t, s1) \<and>
         processSite e st s =
           (Inr (), snd (insertScore e (buildRecord st p t (utcDate e (ticks s))) s1)) \<and>
         ada_a (buildRecord st p t (utcDate e (ticks s))) = parseInt (a11y_a p) \<and>
         ada_aa (buildRecord st p t (utcDate e (ticks s))) = parseInt (a11y_aa p) \<and>
         ada_aaa (buildRecord st p t (utcDate e (ticks s))) = parseInt (a11y_aaa p) \<and>
         ada_aria (buildRecord st p t (utcDate e (ticks s))) = parseInt (a11y_aria p) \<and>
         ada_score_total (buildRecord st p t (utcDate e (ticks s))) = parseInt (a11y_total p)) \<and>
      writerCalls (stats (siteStep e st s)) = Suc (writerCalls (stats s))) \<and>
   (overview e (site_id st) = Inr None \<longrightarrow>
      writerCalls (stats (siteStep e st s)) = writerCalls (stats s) \<and>
      ada_scores (siteStep e st s) = ada_scores s) \<and>
   (\<forall>err. overview e (site_id st) = Inl err \<longrightarrow>
      writerCalls (stats (siteStep e st s)) = writerCalls (stats s) \<and>
      ada_scores (siteStep e st s) = ada_scores s)"
proof (intro conjI impI allI)
  assume ov: "overview e (site_id st) = Inr (Some p)"
  obtain t s1 where tl: "targetLookup e st (incr_processed (s\<lparr>ticks := Suc (ticks s)\<rparr>)) = (Inr t, s1)"
    using targetLookup_pair by blast
  have step: "siteStep e st s = snd (insertScore e (buildRecord st p t (utcDate e (ticks s))) s1)"
    by (rule siteStep_scores[OF ov tl])
  have s1: "s1 = snd (targetLookup e st (incr_processed (s\<lparr>ticks := Suc (ticks s)\<rparr>)))"
    using tl by simp
  show "\<exists>t s1. targetLookup e st (incr_processed (s\<lparr>ticks := Suc (ticks s)\<rparr>)) = (Inr t, s1) \<and>
         processSite e st s =
           (Inr (), snd (insertScore e (buildRecord st p t (utcDate e (ticks s))) s1)) \<and>
         ada_a (buildRecord st p t (utcDate e (ticks s))) = parseInt (a11y_a p) \<and>
         ada_aa (buildRecord st p t (utcDate e (ticks s))) = parseInt (a11y_aa p) \<and>
         ada_aaa (buildRecord st p t (utcDate e (ticks s))) = parseInt (a11y_aaa p) \<and>
         ada_aria (buildRecord st p t (utcDate e (ticks s))) = parseInt (a11y_aria p) \<and>
         ada_score_total (buildRecord st p t (utcDate e (ticks s))) = parseInt (a11y_total p)"
    using tl step by (intro exI[of _ t] exI[of _ s1]) (simp add: processSite_pair buildRecord_def)
  show "writerCalls (stats (siteStep e st s)) = Suc (writerCalls (stats s))"
    by (simp add: step insertScore_stats s1 targetLookup_writerCalls)
next
  assume ov: "overview e (site_id st) = Inr None"
  show "writerCalls (stats (siteStep e st s)) = writerCalls (stats s)"
    by (simp add: siteStep_no_scores[OF ov] targetLookup_writerCalls)
  show "ada_scores (siteStep e st s) = ada_scores s"
    by (simp add: siteStep_no_scores[OF ov])
next
  fix err assume ov: "overview e (site_id st) = Inl err"
  show "writerCalls (stats (siteStep e st s)) = writerCalls (stats s)"
    by (simp add: siteStep_overview_fails[OF ov])
  show "ada_scores (siteStep e st s) = ada_scores s"
    by (simp add: siteStep_overview_fails[OF ov])
qed




lemmas state_defs = exampleSite_def examplePayload_def exampleEntries_def emptyState_def newStats_def

lemma exampleEnv_sel:
  "dbFails exampleEnv n = None"
  "utcDate exampleEnv n = ''2025-06-15''"
  "storedDate exampleEnv d = d"
  "overview exampleEnv i = Inr (Some examplePayload)"
  "targetHistory exampleEnv i = Inr (Some exampleEntries)"
  by (simp_all add: exampleEnv_def)

lemma rejectingEnv_sel:
  "dbFails rejectingEnv n = (if n = 0 then Some ''invalid input syntax for type integer'' else None)"
  "utcDate rejectingEnv n = ''2025-06-15''"
  "storedDate rejectingEnv d = d"
  "overview rejectingEnv i = Inr (Some examplePayload)"
  "targetHistory rejectingEnv i = Inr (Some exampleEntries)"
  by (simp_all add: rejectingEnv_def exampleEnv_def)

lemmas step_defs =
  siteStep_def processSite_def readDate_def siteTry_def targetLookup_def targetTry_def
  isTodayEntry_def buildRecord_def insertScore_eq logErrorToDatabase_eq conflicts_def
  incr_processed_def incr_inserted_def incr_skippedExisting_def incr_insertErrors_def
  incr_targetErrors_def incr_targetInfoNotes_def writerCalls_def

lemmas parseInt_defs =
  parseInt_def isWhiteSpace_def isRadixDigit_def digitValue_def digitsValue_def

theorem unparsable_score_reaches_writer_witness:
  "overview exampleEnv (site_id exampleSite) = Inr (Some examplePayload) \<and>
   writerCalls (stats (siteStep exampleEnv exampleSite emptyState)) = Suc (writerCalls (stats emptyState)) \<and>
   overview noScoresEnv (site_id exampleSite) = Inr None \<and>
   writerCalls (stats (siteStep noScoresEnv exampleSite emptyState)) = writerCalls (stats emptyState) \<and>
   ada_scores (siteStep noScoresEnv exampleSite emptyState) = ada_scores emptyState \<and>
   overview failingOverviewEnv (site_id exampleSite) = Inl (AxiosError None ''timeout'') \<and>
   writerCalls (stats (siteStep failingOverviewEnv exampleSite emptyState)) = writerCalls (stats emptyState) \<and>
   ada_scores (siteStep failingOverviewEnv exampleSite emptyState) = ada_scores emptyState"
proof -
  have ov3: "overview failingOverviewEnv (site_id exampleSite) = Inl (AxiosError None ''timeout'')"
    by (simp add: failingOverviewEnv_def exampleEnv_def)
  from unparsable_score_reaches_writer[of failingOverviewEnv exampleSite examplePayload emptyState] ov3
  have c: "writerCalls (stats (siteStep failingOverviewEnv exampleSite emptyState)) = writerCalls (stats emptyState)"
    "ada_scores (siteStep failingOverviewEnv exampleSite emptyState) = ada_scores emptyState"
    by blast+
  have ov: "overview exampleEnv (site_id exampleSite) = Inr (Some examplePayload)"
    by (simp add: exampleEnv_def)
  have ov2: "overview noScoresEnv (site_id exampleSite) = Inr None"
    by (simp add: noScoresEnv_def exampleEnv_def)
  from unparsable_score_reaches_writer[of exampleEnv exampleSite examplePayload emptyState] ov
  have "writerCalls (stats (siteStep exampleEnv exampleSite emptyState)) = Suc (writerCalls (stats emptyState))"
    by blast
  moreover from unparsable_score_reaches_writer[of noScoresEnv exampleSite examplePayload emptyState] ov2
  have "writerCalls (stats (siteStep noScoresEnv exampleSite emptyState)) = writerCalls (stats emptyState)"
    "ada_scores (siteStep noScoresEnv exampleSite emptyState) = ada_scores emptyState"
    by blast+
  ultimately show ?thesis using ov ov2 ov3 c by (intro conjI)
qed

theorem unparsable_score_counterexample:
  "overview exampleEnv (site_id exampleSite) = Inr (Some examplePayload) \<and>
   parseInt (a11y_aria examplePayload) = NaN \<and>
   map ada_aria (ada_scores (siteStep exampleEnv exampleSite emptyState)) = [NaN] \<and>
   error_logs (siteStep exampleEnv exampleSite emptyState) = [] \<and>
   writerCalls (stats (siteStep exampleEnv exampleSite emptyState)) = 1 \<and>
   overview rejectingEnv (site_id exampleSite) = Inr (Some examplePayload) \<and>
   writerCalls (stats (siteStep rejectingEnv exampleSite emptyState)) = 1 \<and>
   insertErrors (stats (siteStep rejectingEnv exampleSite emptyState)) = 1 \<and>
   map log_level (error_logs (siteStep rejectingEnv exampleSite emptyState)) = [''ERROR'']"
  by (simp add: exampleEnv_sel rejectingEnv_sel state_defs step_defs parseInt_defs)




subsection \<open>The conditional patch\<close>

lemma patchRows_length [simp]: "length (patchRows score i d rows) = length rows"
  by (simp add: patchRows_def)

lemma patchRows_nth:
  "k < length rows \<Longrightarrow>
   patchRows score i d rows ! k =
     (if patchable i d (rows ! k) then (rows ! k)\<lparr>site_target_score := Some score\<rparr> else rows ! k)"
  by (simp add: patchRows_def)

lemma patchRows_keeps_target:
  "k < length rows \<Longrightarrow> site_target_score (rows ! k) \<noteq> None \<Longrightarrow>
   patchRows score i d rows ! k = rows ! k"
  by (simp add: patchRows_nth patchable_def)

lemma patchRows_none_left: "filter (patchable i d) (patchRows score i d rows) = []"
  by (induction rows) (auto simp: patchRows_def patchable_def)

lemma patchRows_again: "patchRows score2 i d (patchRows score i d rows) = patchRows score i d rows"
  by (induction rows) (auto simp: patchRows_def patchable_def)

lemma rowKeys_patchRows [simp]: "rowKeys (patchRows score i d rows) = rowKeys rows"
  by (induction rows) (auto simp: patchRows_def rowKeys_def)

lemma clientQueries_snd:
  "snd (clientQueries e (u # us) s) =
   snd (clientQueries e us
          (snd (pool_query e (UPDATE_site_target_score (Num (u_score u)) (u_sid u) (u_date u)) s)))"
  by (simp split: prod.splits)

lemma batchUpdate_snd:
  "snd (batchUpdate e updates s) =
     (if updates = [] then s
      else case dbFails e (queries s) of
             Some m \<Rightarrow> s\<lparr>queries := Suc (queries s)\<rparr>
           | None \<Rightarrow> snd (clientQueries e updates (s\<lparr>queries := Suc (queries s)\<rparr>)))"
  by (simp add: batchUpdate_def pool_connect_def pool_query_cases split: option.splits prod.splits)

lemma clientQueries_keeps_target:
  "k < length (ada_scores s) \<Longrightarrow> site_target_score (ada_scores s ! k) \<noteq> None \<Longrightarrow>
   length (ada_scores (snd (clientQueries e us s))) = length (ada_scores s) \<and>
   ada_scores (snd (clientQueries e us s)) ! k = ada_scores s ! k"
proof (induction us arbitrary: s)
  case Nil
  then show ?case by simp
next
  case (Cons u us)
  let ?s1 = "snd (pool_query e (UPDATE_site_target_score (Num (u_score u)) (u_sid u) (u_date u)) s)"
  have l: "length (ada_scores ?s1) = length (ada_scores s)"
    by (simp add: pool_query_cases UPDATE_site_target_score_def split: option.splits)
  have n: "ada_scores ?s1 ! k = ada_scores s ! k"
    using Cons.prems
    by (simp add: pool_query_cases UPDATE_site_target_score_def patchRows_keeps_target split: option.splits)
  have "length (ada_scores (snd (clientQueries e us ?s1))) = length (ada_scores ?s1) \<and>
        ada_scores (snd (clientQueries e us ?s1)) ! k = ada_scores ?s1 ! k"
    by (rule Cons.IH) (use Cons.prems l n in simp_all)
  then show ?case using l n by (simp only: clientQueries_snd)
qed

lemma batchUpdate_keeps_target:
  "k < length (ada_scores s) \<Longrightarrow> site_target_score (ada_scores s ! k) \<noteq> None \<Longrightarrow>
   ada_scores (snd (batchUpdate e updates s)) ! k = ada_scores s ! k"
  using clientQueries_keeps_target[of k "s\<lparr>queries := Suc (queries s)\<rparr>" e updates]
  by (simp add: batchUpdate_snd split: option.splits)

text \<open>
  Claim C3. The conditional update \<^verbatim>\<open>UPDATE ada_scores SET site_target_score = $1 WHERE
  sid = $2 AND date = $3 AND site_target_score IS NULL\<close> changes a row only when its key
  matches and its target is \<^verbatim>\<open>NULL\<close>, and then sets the target to the score passed. A row
  whose target is not \<^verbatim>\<open>NULL\<close> keeps it, whatever score is passed. Running the update again
  on the result, with any score, affects no row and changes nothing. A row with a target
  also keeps it through a whole batch update of the backfill, whether the statements of
  the batch succeed or fail.
\<close>

theorem patch_preserves_non_null_target:
  "UPDATE_site_target_score score i d s = (n, s') \<Longrightarrow>
     length (ada_scores s') = length (ada_scores s) \<and>
     (\<forall>k < length (ada_scores s).
        ada_scores s' ! k =
          (if patchable i d (ada_scores s ! k)
           then (ada_scores s ! k)\<lparr>site_target_score := Some score\<rparr>
           else ada_scores s ! k)) \<and>
     (\<forall>k < length (ada_scores s).
        site_target_score (ada_scores s ! k) \<noteq> None \<longrightarrow>
          ada_scores s' ! k = ada_scores s ! k \<and>
          ada_scores (snd (batchUpdate e updates s)) ! k = ada_scores s ! k) \<and>
     (\<forall>score2. UPDATE_site_target_score score2 i d s' = (0, s'))"
proof -
  assume run: "UPDATE_site_target_score score i d s = (n, s')"
  then have s': "s' = s\<lparr>ada_scores := patchRows score i d (ada_scores s)\<rparr>"
    by (simp add: UPDATE_site_target_score_def)
  have a: "length (ada_scores s') = length (ada_scores s)" by (simp add: s')
  have b: "\<forall>k < length (ada_scores s).
        ada_scores s' ! k =
          (if patchable i d (ada_scores s ! k)
           then (ada_scores s ! k)\<lparr>site_target_score := Some score\<rparr>
           else ada_scores s ! k)"
    by (simp add: s' patchRows_nth)
  have c: "\<forall>k < length (ada_scores s).
        site_target_score (ada_scores s ! k) \<noteq> None \<longrightarrow>
          ada_scores s' ! k = ada_scores s ! k \<and>
          ada_scores (snd (batchUpdate e updates s)) ! k = ada_scores s ! k"
    using batchUpdate_keeps_target by (simp add: s' patchRows_keeps_target)
  have d: "\<forall>score2. UPDATE_site_target_score score2 i d s' = (0, s')"
    by (simp add: s' UPDATE_site_target_score_def patchRows_none_left patchRows_again)
  from a b c d show ?thesis by blast
qed

theorem patch_preserves_non_null_target_witness:
  "UPDATE_site_target_score (Num 95) 101 ''2025-06-15'' (emptyState\<lparr>ada_scores := exampleRows\<rparr>)
     = (0, emptyState\<lparr>ada_scores := exampleRows\<rparr>) \<and>
   (0::nat) < length (ada_scores (emptyState\<lparr>ada_scores := exampleRows\<rparr>)) \<and>
   site_target_score (ada_scores (emptyState\<lparr>ada_scores := exampleRows\<rparr>) ! 0) = Some (Num 90) \<and>
   ada_scores (snd (batchUpdate exampleEnv exampleUpdates (emptyState\<lparr>ada_scores := exampleRows\<rparr>))) ! 0
     = ada_scores (emptyState\<lparr>ada_scores := exampleRows\<rparr>) ! 0 \<and>
   map site_target_score
     (ada_scores (snd (batchUpdate exampleEnv exampleUpdates (emptyState\<lparr>ada_scores := exampleRows\<rparr>))))
     = [Some (Num 90), Some (Num 75)]"
proof -
  let ?s = "emptyState\<lparr>ada_scores := exampleRows\<rparr>"
  have run: "UPDATE_site_target_score (Num 95) 101 ''2025-06-15'' ?s = (0, ?s)"
    by (simp add: UPDATE_site_target_score_def patchRows_def patchable_def exampleRows_def emptyState_def)
  have len: "(0::nat) < length (ada_scores ?s)" by (simp add: exampleRows_def)
  have tgt: "site_target_score (ada_scores ?s ! 0) = Some (Num 90)" by (simp add: exampleRows_def)
  from patch_preserves_non_null_target[OF run, of exampleEnv exampleUpdates] len tgt
  have keep: "ada_scores (snd (batchUpdate exampleEnv exampleUpdates ?s)) ! 0 = ada_scores ?s ! 0"
    by simp
  have all: "map site_target_score (ada_scores (snd (batchUpdate exampleEnv exampleUpdates ?s)))
     = [Some (Num 90), Some (Num 75)]"
    by (simp add: batchUpdate_snd clientQueries_snd pool_query_cases UPDATE_site_target_score_def
        patchRows_def patchable_def exampleRows_def exampleUpdates_def exampleEnv_def emptyState_def)
  from run len tgt keep all show ?thesis by (intro conjI)
qed




subsection \<open>The shape of one incremental run\<close>

lemma fetchExistingRecords_eq:
  "fetchExistingRecords e s =
     (case dbFails e (queries s) of
        Some m \<Rightarrow> (Inl (DatabaseError m), s\<lparr>queries := Suc (queries s)\<rparr>)
      | None \<Rightarrow> (Inr (storedKeys e (ada_scores s)), s\<lparr>queries := Suc (queries s)\<rparr>))"
  by (simp add: fetchExistingRecords_def pool_query_cases SELECT_sid_date_def storedKeys_def
      comp_def split: option.splits)

lemma batchLoop_runSites: "batchLoop e sites 0 s = (Inr (), runSites e sites s)"
  by (simp add: batchLoop_eq runSites_def)

lemma fetchAndInsertRecords_eq:
  "fetchAndInsertRecords e s =
     (case dbFails e (queries s) of
        Some m \<Rightarrow> (Inl (DatabaseError m), s\<lparr>queries := Suc (queries s), stats := newStats\<rparr>)
      | None \<Rightarrow>
          (case accessibleSites e of
             Inl err \<Rightarrow>
               (Inl err,
                snd (logErrorToDatabase e None ''General API Error'' (message err) ''ERROR''
                       (s\<lparr>queries := Suc (queries s),
                          existingRecords := storedKeys e (ada_scores s), stats := newStats\<rparr>)))
           | Inr sites \<Rightarrow>
               (Inr (stats (runSites e sites (loaded e (length sites) s))),
                runSites e sites (loaded e (length sites) s))))"
  by (simp add: fetchAndInsertRecords_def fetchExistingRecords_eq sweepTry_def batchLoop_runSites
      logErrorToDatabase_eq loaded_def split: option.splits sum.splits)

lemma runSites_Nil [simp]: "runSites e [] s = s"
  by (simp add: runSites_def)

lemma runSites_Cons [simp]: "runSites e (st # sites) s = runSites e sites (siteStep e st s)"
  by (simp add: runSites_def)

lemma runSites_append: "runSites e (xs @ ys) s = runSites e ys (runSites e xs s)"
  by (simp add: runSites_def)

lemma runSites_invariant:
  "(\<And>st s. st \<in> set sites \<Longrightarrow> P s \<Longrightarrow> P (siteStep e st s)) \<Longrightarrow> P s \<Longrightarrow> P (runSites e sites s)"
  by (induction sites arbitrary: s) simp_all

text \<open>A turn of the loop is one of three things.\<close>

lemma siteStep_cases:
  obtains (fails) err where "overview e (site_id st) = Inl err"
      "siteStep e st s =
         snd (logErrorToDatabase e (Some (site_id st)) (site_name st)
                (''Approved site failed during processing: '' @ message err) ''WARNING''
                (incr_processed (s\<lparr>ticks := Suc (ticks s)\<rparr>)))"
    | (no_scores) "overview e (site_id st) = Inr None"
      "siteStep e st s =
         snd (logErrorToDatabase e (Some (site_id st)) (site_name st)
                (''Approved site failed during processing: '' @
                 ''Cannot destructure property a of undefined'') ''WARNING''
                (snd (targetLookup e st (incr_processed (s\<lparr>ticks := Suc (ticks s)\<rparr>)))))"
    | (scores) p t s1 where "overview e (site_id st) = Inr (Some p)"
      "targetLookup e st (incr_processed (s\<lparr>ticks := Suc (ticks s)\<rparr>)) = (Inr t, s1)"
      "siteStep e st s = snd (insertScore e (buildRecord st p t (utcDate e (ticks s))) s1)"
proof (cases "overview e (site_id st)")
  case (Inl err)
  then show ?thesis using fails siteStep_overview_fails by blast
next
  case (Inr payload)
  show ?thesis
  proof (cases payload)
    case None
    then show ?thesis using Inr no_scores siteStep_no_scores by blast
  next
    case (Some p)
    obtain t s1 where tl: "targetLookup e st (incr_processed (s\<lparr>ticks := Suc (ticks s)\<rparr>)) = (Inr t, s1)"
      using targetLookup_pair by blast
    from Inr Some have ov: "overview e (site_id st) = Inr (Some p)" by simp
    show ?thesis using scores[OF ov tl siteStep_scores[OF ov tl]] .
  qed
qed

subsection \<open>Uniqueness of (sid, date)\<close>

lemma conflicts_rowKeys: "conflicts rows i d \<longleftrightarrow> (i, d) \<in> set (rowKeys rows)"
  by (auto simp: conflicts_def rowKeys_def)

lemma uniqueKeys_append:
  "uniqueKeys rows \<Longrightarrow> \<not> conflicts rows (sid r) (date r) \<Longrightarrow> uniqueKeys (rows @ [r])"
  by (simp add: uniqueKeys_def conflicts_rowKeys) (simp add: rowKeys_def)

lemma insertScore_rows:
  "ada_scores (snd (insertScore e r s)) = ada_scores s \<or>
   (\<not> conflicts (ada_scores s) (sid r) (date r) \<and>
    ada_scores (snd (insertScore e r s)) = ada_scores s @ [r])"
  by (simp add: insertScore_eq split: option.splits)

lemma insertScore_unique:
  "uniqueKeys (ada_scores s) \<Longrightarrow> uniqueKeys (ada_scores (snd (insertScore e r s)))"
  using insertScore_rows[of e r s] by (auto simp: uniqueKeys_append)

lemma siteStep_unique:
  "uniqueKeys (ada_scores s) \<Longrightarrow> uniqueKeys (ada_scores (siteStep e st s))"
proof (cases rule: siteStep_cases[of e st s])
  case (fails err)
  assume "uniqueKeys (ada_scores s)"
  then show ?thesis by (simp add: fails(2))
next
  case no_scores
  assume "uniqueKeys (ada_scores s)"
  then show ?thesis by (simp add: no_scores(2))
next
  case (scores p t s1)
  assume u: "uniqueKeys (ada_scores s)"
  have "ada_scores s1 = ada_scores s"
    using targetLookup_frame(1)[of e st "incr_processed (s\<lparr>ticks := Suc (ticks s)\<rparr>)"] scores(2)
    by simp
  with u show ?thesis by (simp add: scores(3) insertScore_unique)
qed

lemma runSites_unique:
  "uniqueKeys (ada_scores s) \<Longrightarrow> uniqueKeys (ada_scores (runSites e sites s))"
  by (rule runSites_invariant[where P = "\<lambda>s. uniqueKeys (ada_scores s)"]) (simp_all add: siteStep_unique)

lemma fetchAndInsertRecords_unique:
  "uniqueKeys (ada_scores s) \<Longrightarrow> uniqueKeys (ada_scores (snd (fetchAndInsertRecords e s)))"
  by (simp add: fetchAndInsertRecords_eq runSites_unique loaded_def split: option.splits sum.splits)

lemma clientQueries_unique:
  "uniqueKeys (ada_scores s) \<Longrightarrow> uniqueKeys (ada_scores (snd (clientQueries e us s)))"
proof (induction us arbitrary: s)
  case Nil
  then show ?case by simp
next
  case (Cons u us)
  have "uniqueKeys (ada_scores (snd (pool_query e
          (UPDATE_site_target_score (Num (u_score u)) (u_sid u) (u_date u)) s)))"
    using Cons.prems
    by (simp add: pool_query_cases UPDATE_site_target_score_def uniqueKeys_def split: option.splits)
  then show ?case by (simp only: clientQueries_snd Cons.IH)
qed

lemma batchUpdate_unique:
  "uniqueKeys (ada_scores s) \<Longrightarrow> uniqueKeys (ada_scores (snd (batchUpdate e updates s)))"
  using clientQueries_unique[of "s\<lparr>queries := Suc (queries s)\<rparr>" e updates]
  by (simp add: batchUpdate_snd split: option.splits)

lemma perform_unique:
  "uniqueKeys (ada_scores s) \<Longrightarrow> uniqueKeys (ada_scores (perform x s))"
  by (cases x) (simp_all add: insertScore_unique fetchAndInsertRecords_unique batchUpdate_unique)

text \<open>
  Claim C1. Starting from a table in which no two rows share (sid, date), every state
  reached by a sequence of pipeline operations, each a call of \<^verbatim>\<open>insertScore\<close>, a whole
  incremental run or a batch update of the backfill, against any upstream and any
  behaviour of the database, has at most one row per (sid, date).
\<close>

theorem one_row_per_site_and_date:
  "uniqueKeys (ada_scores s) \<Longrightarrow> uniqueKeys (ada_scores (performAll ops s))"
  by (induction ops arbitrary: s) (simp_all add: perform_unique)




lemma accessibleSites_example: "accessibleSites exampleEnv = Inr [exampleSite]"
  by (simp add: accessibleSites_def exampleEnv_def exampleSite_def)

theorem one_row_per_site_and_date_witness:
  "uniqueKeys (ada_scores (emptyState\<lparr>ada_scores := exampleRows\<rparr>)) \<and>
   uniqueKeys (ada_scores (performAll exampleOperations (emptyState\<lparr>ada_scores := exampleRows\<rparr>))) \<and>
   rowKeys (ada_scores (performAll exampleOperations (emptyState\<lparr>ada_scores := exampleRows\<rparr>)))
     = [(101, ''2025-06-15''), (102, ''2025-06-15'')]"
proof -
  let ?s = "emptyState\<lparr>ada_scores := exampleRows\<rparr>"
  have u: "uniqueKeys (ada_scores ?s)"
    by (simp add: uniqueKeys_def rowKeys_def exampleRows_def)
  have k: "rowKeys (ada_scores (performAll exampleOperations ?s)) = [(101, ''2025-06-15''), (102, ''2025-06-15'')]"
    by (simp add: exampleOperations_def fetchAndInsertRecords_eq accessibleSites_example loaded_def
        storedKeys_def batchUpdate_snd clientQueries_snd pool_query_cases UPDATE_site_target_score_def
        exampleUpdates_def exampleEnv_sel state_defs step_defs rowKeys_def exampleRows_def recordKey_def
        patchRows_def patchable_def)
  from one_row_per_site_and_date[OF u, of exampleOperations] u k show ?thesis by (intro conjI)
qed




subsection \<open>The key template is injective\<close>

lemma digit_not_dash: "k < 10 \<Longrightarrow> char_of (48 + k :: nat) \<noteq> CHR ''-''"
proof
  assume k: "k < 10" and eq: "char_of (48 + k) = CHR ''-''"
  from eq have "of_char (char_of (48 + k)) = (of_char CHR ''-'' :: nat)" by simp
  then have "(48 + k) mod 256 = 45" by simp
  with k show False by simp
qed

lemma digit_inj: "j < 10 \<Longrightarrow> k < 10 \<Longrightarrow> char_of (48 + j :: nat) = char_of (48 + k) \<Longrightarrow> j = k"
  by simp

lemma showNat_no_dash: "CHR ''-'' \<notin> set (showNat n)"
proof (induction n rule: showNat.induct)
  case (1 n)
  show ?case
  proof (cases "n < 10")
    case True
    then show ?thesis using digit_not_dash[of n] by (subst showNat.simps) auto
  next
    case False
    then show ?thesis using "1.IH" digit_not_dash[of "n mod 10"]
      by (subst showNat.simps) auto
  qed
qed

lemma showNat_not_Nil: "showNat n \<noteq> []"
  by (subst showNat.simps) simp

lemma showNat_inj: "showNat m = showNat n \<Longrightarrow> m = n"
proof (induction m arbitrary: n rule: showNat.induct)
  case (1 m)
  show ?case
  proof (cases "m < 10")
    case m: True
    show ?thesis
    proof (cases "n < 10")
      case True
      with m "1.prems" show ?thesis
        by (subst (asm) showNat.simps, subst (asm) (2) showNat.simps) simp
    next
      case False
      with m "1.prems" have "[char_of (48 + m)] = showNat (n div 10) @ [char_of (48 + n mod 10)]"
        by (subst (asm) showNat.simps, subst (asm) (2) showNat.simps) simp
      then have "showNat (n div 10) = []" by simp
      then show ?thesis using showNat_not_Nil by blast
    qed
  next
    case m: False
    show ?thesis
    proof (cases "n < 10")
      case True
      with m "1.prems" have "showNat (m div 10) @ [char_of (48 + m mod 10)] = [char_of (48 + n)]"
        by (subst (asm) showNat.simps, subst (asm) (2) showNat.simps) simp
      then have "showNat (m div 10) = []" by simp
      then show ?thesis using showNat_not_Nil by blast
    next
      case False
      with m "1.prems" have
        "showNat (m div 10) @ [char_of (48 + m mod 10)] = showNat (n div 10) @ [char_of (48 + n mod 10)]"
        by (subst (asm) showNat.simps, subst (asm) (2) showNat.simps) simp
      then have a: "showNat (m div 10) = showNat (n div 10)"
        and b: "char_of (48 + m mod 10) = char_of (48 + n mod 10)" by simp_all
      from "1.IH"[OF m a] have "m div 10 = n div 10" .
      moreover from b have "m mod 10 = n mod 10" using digit_inj[of "m mod 10" "n mod 10"] by simp
      ultimately show ?thesis by (metis div_mult_mod_eq)
    qed
  qed
qed

lemma split_at_dash:
  "CHR ''-'' \<notin> set xs \<Longrightarrow> CHR ''-'' \<notin> set ys \<Longrightarrow>
   xs @ CHR ''-'' # u = ys @ CHR ''-'' # v \<Longrightarrow> xs = ys \<and> u = v"
proof -
  assume x: "CHR ''-'' \<notin> set xs" and y: "CHR ''-'' \<notin> set ys"
    and eq: "xs @ CHR ''-'' # u = ys @ CHR ''-'' # v"
  have "takeWhile (\<lambda>c. c \<noteq> CHR ''-'') (xs @ CHR ''-'' # u) = xs"
    using x by (induction xs) auto
  moreover have "takeWhile (\<lambda>c. c \<noteq> CHR ''-'') (ys @ CHR ''-'' # v) = ys"
    using y by (induction ys) auto
  ultimately have "xs = ys" using eq by simp
  with eq show ?thesis by simp
qed

lemma recordKey_inj: "recordKey i d = recordKey j d' \<longleftrightarrow> i = j \<and> d = d'"
proof
  assume "recordKey i d = recordKey j d'"
  then have "showNat i @ CHR ''-'' # d = showNat j @ CHR ''-'' # d'"
    by (simp add: recordKey_def)
  then have "showNat i = showNat j \<and> d = d'"
    by (rule split_at_dash[OF showNat_no_dash showNat_no_dash])
  then show "i = j \<and> d = d'" using showNat_inj by blast
qed simp




subsection \<open>What a run leaves in the table\<close>

lemma loaded_indexSound: "indexSound e (loaded e n s)"
  by (simp add: indexSound_def loaded_def)

lemma covered_mono: "set rows \<subseteq> set rows' \<Longrightarrow> covered e rows i d \<Longrightarrow> covered e rows' i d"
  by (auto simp: covered_def storedKeys_def conflicts_def)

lemma covered_row:
  "covered e rows i d \<Longrightarrow> \<exists>row \<in> set rows. sid row = i \<and> (date row = d \<or> storedDate e (date row) = d)"
  by (auto simp: covered_def storedKeys_def conflicts_def recordKey_inj)

lemma insertScore_grows: "set (ada_scores s) \<subseteq> set (ada_scores (snd (insertScore e r s)))"
  using insertScore_rows[of e r s] by auto

lemma insertScore_insertErrors:
  "insertErrors (stats s) \<le> insertErrors (stats (snd (insertScore e r s)))"
  by (simp add: insertScore_eq incr_skippedExisting_def incr_inserted_def incr_insertErrors_def
      split: option.splits)

lemma insertScore_indexSound:
  "indexSound e s \<Longrightarrow> indexSound e (snd (insertScore e r s))"
  by (auto simp: insertScore_eq indexSound_def storedKeys_def incr_skippedExisting_def
      incr_inserted_def incr_insertErrors_def split: option.splits)

lemma insertScore_covered:
  assumes "indexSound e s"
    and "insertErrors (stats (snd (insertScore e r s))) = insertErrors (stats s)"
  shows "covered e (ada_scores (snd (insertScore e r s))) (sid r) (date r)"
proof (cases "recordKey (sid r) (date r) \<in> existingRecords s")
  case True
  with assms(1) have "recordKey (sid r) (date r) \<in> storedKeys e (ada_scores s) \<or>
      (\<exists>row \<in> set (ada_scores s). recordKey (sid r) (date r) = recordKey (sid row) (date row))"
    by (auto simp: indexSound_def)
  then have "covered e (ada_scores s) (sid r) (date r)"
    by (auto simp: covered_def conflicts_def recordKey_inj)
  then show ?thesis using insertScore_grows covered_mono by blast
next
  case False
  show ?thesis
  proof (cases "dbFails e (queries s)")
    case (Some m)
    with False assms(2) show ?thesis
      by (simp add: insertScore_eq incr_insertErrors_def)
  next
    case None
    with False show ?thesis
      by (auto simp: insertScore_eq covered_def conflicts_def)
  qed
qed

lemma targetLookup_state:
  assumes "targetLookup e st s0 = (Inr t, s1)"
  shows "ada_scores s1 = ada_scores s0" "existingRecords s1 = existingRecords s0"
    "insertErrors (stats s1) = insertErrors (stats s0)" "inserted (stats s1) = inserted (stats s0)"
    "writerCalls (stats s1) = writerCalls (stats s0)"
  using targetLookup_frame[of e st s0] targetLookup_stats[of e st s0] assms by simp_all

lemma indexSound_cong:
  "ada_scores s' = ada_scores s \<Longrightarrow> existingRecords s' = existingRecords s \<Longrightarrow>
   indexSound e s' = indexSound e s"
  by (simp add: indexSound_def)

lemma buildRecord_key [simp]:
  "sid (buildRecord st p t d) = site_id st" "date (buildRecord st p t d) = d"
  by (simp_all add: buildRecord_def)

lemma siteStep_grows: "set (ada_scores s) \<subseteq> set (ada_scores (siteStep e st s))"
proof (cases rule: siteStep_cases[of e st s])
  case (scores p t s1)
  have "ada_scores s1 = ada_scores s" using targetLookup_state(1)[OF scores(2)] by simp
  then show ?thesis using insertScore_grows[of s1 e] by (simp add: scores(3))
qed simp_all

lemma siteStep_insertErrors: "insertErrors (stats s) \<le> insertErrors (stats (siteStep e st s))"
proof (cases rule: siteStep_cases[of e st s])
  case (fails err)
  then show ?thesis by (simp add: incr_processed_def)
next
  case no_scores
  then show ?thesis by (simp add: targetLookup_stats incr_processed_def)
next
  case (scores p t s1)
  have "insertErrors (stats s1) = insertErrors (stats s)"
    using targetLookup_state(3)[OF scores(2)] by (simp add: incr_processed_def)
  then show ?thesis using insertScore_insertErrors[of s1 e] by (simp add: scores(3))
qed

lemma siteStep_indexSound: "indexSound e s \<Longrightarrow> indexSound e (siteStep e st s)"
proof (cases rule: siteStep_cases[of e st s])
  case (fails err)
  assume "indexSound e s"
  then show ?thesis by (simp add: fails(2) indexSound_def)
next
  case no_scores
  assume "indexSound e s"
  then show ?thesis by (simp add: no_scores(2) indexSound_def)
next
  case (scores p t s1)
  assume a: "indexSound e s"
  have "indexSound e s1 = indexSound e s"
    by (rule indexSound_cong) (use targetLookup_state(1,2)[OF scores(2)] in simp_all)
  with a show ?thesis by (simp add: scores(3) insertScore_indexSound)
qed

lemma siteStep_covered:
  assumes "indexSound e s" and "hasScores e st"
    and "insertErrors (stats (siteStep e st s)) = insertErrors (stats s)"
  shows "covered e (ada_scores (siteStep e st s)) (site_id st) (utcDate e (ticks s))"
proof (cases rule: siteStep_cases[of e st s])
  case (fails err)
  with assms(2) show ?thesis by (simp add: hasScores_def)
next
  case no_scores
  with assms(2) show ?thesis by (simp add: hasScores_def)
next
  case (scores p t s1)
  have snd: "indexSound e s1"
    using assms(1) indexSound_cong[of s1 s e] targetLookup_state(1,2)[OF scores(2)] by simp
  have "insertErrors (stats s1) = insertErrors (stats s)"
    using targetLookup_state(3)[OF scores(2)] by (simp add: incr_processed_def)
  with assms(3) have "insertErrors (stats (snd (insertScore e (buildRecord st p t (utcDate e (ticks s))) s1)))
      = insertErrors (stats s1)"
    by (simp add: scores(3))
  from insertScore_covered[OF snd this] show ?thesis by (simp add: scores(3))
qed

lemma runSites_grows: "set (ada_scores s) \<subseteq> set (ada_scores (runSites e sites s))"
proof (induction sites arbitrary: s)
  case (Cons st sites)
  then show ?case using siteStep_grows[of s e st] by (simp, blast)
qed simp

lemma runSites_insertErrors: "insertErrors (stats s) \<le> insertErrors (stats (runSites e sites s))"
proof (induction sites arbitrary: s)
  case (Cons st sites)
  then show ?case using siteStep_insertErrors[of s e st] le_trans by (simp, blast)
qed simp

lemma runSites_indexSound: "indexSound e s \<Longrightarrow> indexSound e (runSites e sites s)"
  by (rule runSites_invariant[where P = "indexSound e"]) (simp_all add: siteStep_indexSound)

lemma runSites_covered:
  "indexSound e s \<Longrightarrow> insertErrors (stats (runSites e sites s)) = insertErrors (stats s) \<Longrightarrow>
   st \<in> set sites \<Longrightarrow> hasScores e st \<Longrightarrow>
   \<exists>n. covered e (ada_scores (runSites e sites s)) (site_id st) (utcDate e n)"
proof (induction sites arbitrary: s)
  case Nil
  then show ?case by simp
next
  case (Cons x sites)
  let ?s1 = "siteStep e x s"
  have le1: "insertErrors (stats s) \<le> insertErrors (stats ?s1)" by (rule siteStep_insertErrors)
  have le2: "insertErrors (stats ?s1) \<le> insertErrors (stats (runSites e sites ?s1))"
    by (rule runSites_insertErrors)
  from Cons.prems(2) le1 le2 have eq1: "insertErrors (stats ?s1) = insertErrors (stats s)"
    and eq2: "insertErrors (stats (runSites e sites ?s1)) = insertErrors (stats ?s1)"
    by simp_all
  have snd: "indexSound e ?s1" using Cons.prems(1) by (rule siteStep_indexSound)
  show ?case
  proof (cases "st \<in> set sites")
    case True
    from Cons.IH[OF snd eq2 True Cons.prems(4)] show ?thesis by simp
  next
    case False
    with Cons.prems(3) have "st = x" by simp
    with Cons.prems(1,4) eq1 have "covered e (ada_scores ?s1) (site_id st) (utcDate e (ticks s))"
      using siteStep_covered by blast
    then have "covered e (ada_scores (runSites e sites ?s1)) (site_id st) (utcDate e (ticks s))"
      using covered_mono runSites_grows by blast
    then show ?thesis by auto
  qed
qed

lemma siteStep_processed: "processed (stats (siteStep e st s)) = Suc (processed (stats s))"
proof (cases rule: siteStep_cases[of e st s])
  case (fails err)
  then show ?thesis by (simp add: incr_processed_def)
next
  case no_scores
  then show ?thesis by (simp add: targetLookup_stats incr_processed_def)
next
  case (scores p t s1)
  have "processed (stats s1) = Suc (processed (stats s))"
    using targetLookup_stats(5)[of e st "incr_processed (s\<lparr>ticks := Suc (ticks s)\<rparr>)"] scores(2)
    by (simp add: incr_processed_def)
  then show ?thesis by (simp add: scores(3) insertScore_stats)
qed

lemma siteStep_sitesPulled: "sitesPulled (stats (siteStep e st s)) = sitesPulled (stats s)"
proof (cases rule: siteStep_cases[of e st s])
  case (fails err)
  then show ?thesis by (simp add: incr_processed_def)
next
  case no_scores
  then show ?thesis by (simp add: targetLookup_stats incr_processed_def)
next
  case (scores p t s1)
  have "sitesPulled (stats s1) = sitesPulled (stats s)"
    using targetLookup_stats(6)[of e st "incr_processed (s\<lparr>ticks := Suc (ticks s)\<rparr>)"] scores(2)
    by (simp add: incr_processed_def)
  then show ?thesis by (simp add: scores(3) insertScore_stats)
qed

lemma runSites_processed:
  "processed (stats (runSites e sites s)) = processed (stats s) + length sites"
  by (induction sites arbitrary: s) (simp_all add: siteStep_processed)

lemma runSites_sitesPulled:
  "sitesPulled (stats (runSites e sites s)) = sitesPulled (stats s)"
  by (induction sites arbitrary: s) (simp_all add: siteStep_sitesPulled)

lemma siteStep_healthy_db:
  assumes "\<forall>n. dbFails e n = None"
  shows "insertErrors (stats (siteStep e st s)) = insertErrors (stats s)"
proof (cases rule: siteStep_cases[of e st s])
  case (fails err)
  then show ?thesis by (simp add: incr_processed_def)
next
  case no_scores
  then show ?thesis by (simp add: targetLookup_stats incr_processed_def)
next
  case (scores p t s1)
  have "insertErrors (stats s1) = insertErrors (stats s)"
    using targetLookup_state(3)[OF scores(2)] by (simp add: incr_processed_def)
  then show ?thesis using assms
    by (simp add: scores(3) insertScore_eq incr_skippedExisting_def incr_inserted_def)
qed

lemma runSites_healthy_db:
  "\<forall>n. dbFails e n = None \<Longrightarrow> insertErrors (stats (runSites e sites s)) = insertErrors (stats s)"
  by (induction sites arbitrary: s) (simp_all add: siteStep_healthy_db)




text \<open>
  Claim C9, as the code has it. An incremental run fails as a whole exactly when the
  initial load of the existing records fails or the directory listing fails (the request
  itself, or a listed site without \<^verbatim>\<open>product\<close>). Otherwise it returns its statistics, and
  every site of the list gets its turn whatever happened to the sites before it: the
  number of processed sites is the length of the list, a site whose overview request
  fails only leaves a log entry of level WARNING, an INSERT that the database rejects
  only leaves a log entry of level ERROR and a count in \<^verbatim>\<open>insertErrors\<close>, and each site
  that has scores and whose own INSERT the database did not reject has a row in the table
  at the end, for its id and the date read at its turn, whatever failed at the sites
  before and after it. In particular, when the database accepts every statement each
  site that has scores has a row in the table at the end.
\<close>

theorem site_failures_do_not_stop_the_run:
  "((\<exists>err. fst (fetchAndInsertRecords e s) = Inl err) \<longleftrightarrow>
      dbFails e (queries s) \<noteq> None \<or> (\<exists>err. accessibleSites e = Inl err)) \<and>
   (dbFails e (queries s) = None \<and> accessibleSites e = Inr sites \<longrightarrow>
      fetchAndInsertRecords e s =
        (Inr (stats (runSites e sites (loaded e (length sites) s))),
         runSites e sites (loaded e (length sites) s)) \<and>
      processed (stats (runSites e sites (loaded e (length sites) s))) = length sites \<and>
      ((\<forall>n. dbFails e n = None) \<longrightarrow>
         (\<forall>st \<in> set sites. hasScores e st \<longrightarrow>
            (\<exists>row \<in> set (ada_scores (snd (fetchAndInsertRecords e s))).
               sid row = site_id st \<and>
               (\<exists>n. date row = utcDate e n \<or> storedDate e (date row) = utcDate e n)))) \<and>
      (\<forall>pre st post.
         sites = pre @ st # post \<and> hasScores e st \<and>
         insertErrors (stats (siteStep e st (runSites e pre (loaded e (length sites) s)))) =
         insertErrors (stats (runSites e pre (loaded e (length sites) s))) \<longrightarrow>
            (\<exists>row \<in> set (ada_scores (snd (fetchAndInsertRecords e s))).
               sid row = site_id st \<and>
               (date row = utcDate e (ticks (runSites e pre (loaded e (length sites) s))) \<or>
                storedDate e (date row) =
                  utcDate e (ticks (runSites e pre (loaded e (length sites) s))))))) \<and>
   (\<forall>st err s1. overview e (site_id st) = Inl err \<longrightarrow>
      processSite e st s1 =
        (Inr (),
         snd (logErrorToDatabase e (Some (site_id st)) (site_name st)
                (''Approved site failed during processing: '' @ message err) ''WARNING''
                (incr_processed (s1\<lparr>ticks := Suc (ticks s1)\<rparr>))))) \<and>
   (\<forall>r m s1. recordKey (sid r) (date r) \<notin> existingRecords s1 \<and> dbFails e (queries s1) = Some m \<longrightarrow>
      insertScore e r s1 =
        (Inr False,
         snd (logErrorToDatabase e (Some (sid r)) (name r) m ''ERROR''
                (incr_insertErrors (s1\<lparr>queries := Suc (queries s1)\<rparr>)))))"
proof (intro conjI impI allI)
  show "(\<exists>err. fst (fetchAndInsertRecords e s) = Inl err) \<longleftrightarrow>
      dbFails e (queries s) \<noteq> None \<or> (\<exists>err. accessibleSites e = Inl err)"
    by (cases "dbFails e (queries s)"; cases "accessibleSites e")
       (simp_all add: fetchAndInsertRecords_eq)
next
  assume h: "dbFails e (queries s) = None \<and> accessibleSites e = Inr sites"
  then show run: "fetchAndInsertRecords e s =
        (Inr (stats (runSites e sites (loaded e (length sites) s))),
         runSites e sites (loaded e (length sites) s))"
    by (simp add: fetchAndInsertRecords_eq)
  show "processed (stats (runSites e sites (loaded e (length sites) s))) = length sites"
    by (simp add: runSites_processed loaded_def newStats_def)
  assume db: "\<forall>n. dbFails e n = None"
  show "\<forall>st \<in> set sites. hasScores e st \<longrightarrow>
            (\<exists>row \<in> set (ada_scores (snd (fetchAndInsertRecords e s))).
               sid row = site_id st \<and>
               (\<exists>n. date row = utcDate e n \<or> storedDate e (date row) = utcDate e n))"
  proof (intro ballI impI)
    fix st assume st: "st \<in> set sites" "hasScores e st"
    let ?s0 = "loaded e (length sites) s"
    have "insertErrors (stats (runSites e sites ?s0)) = insertErrors (stats ?s0)"
      using db by (rule runSites_healthy_db)
    from runSites_covered[OF loaded_indexSound this st]
    obtain n where "covered e (ada_scores (runSites e sites ?s0)) (site_id st) (utcDate e n)"
      by blast
    from covered_row[OF this] show "\<exists>row \<in> set (ada_scores (snd (fetchAndInsertRecords e s))).
               sid row = site_id st \<and>
               (\<exists>n. date row = utcDate e n \<or> storedDate e (date row) = utcDate e n)"
      by (auto simp: run)
  qed
next
  fix pre st post
  assume h: "dbFails e (queries s) = None \<and> accessibleSites e = Inr sites"
    and k: "sites = pre @ st # post \<and> hasScores e st \<and>
         insertErrors (stats (siteStep e st (runSites e pre (loaded e (length sites) s)))) =
         insertErrors (stats (runSites e pre (loaded e (length sites) s)))"
  let ?sp = "runSites e pre (loaded e (length sites) s)"
  from h have run: "snd (fetchAndInsertRecords e s) = runSites e sites (loaded e (length sites) s)"
    by (simp add: fetchAndInsertRecords_eq)
  from k have k1: "sites = pre @ st # post" and k2: "hasScores e st"
    and k3: "insertErrors (stats (siteStep e st ?sp)) = insertErrors (stats ?sp)"
    by blast+
  have "runSites e sites x = runSites e post (siteStep e st (runSites e pre x))" for x
    unfolding k1 by (simp add: runSites_append)
  then have fin: "runSites e sites (loaded e (length sites) s) = runSites e post (siteStep e st ?sp)" .
  have idx: "indexSound e ?sp" using loaded_indexSound by (rule runSites_indexSound)
  have "covered e (ada_scores (siteStep e st ?sp)) (site_id st) (utcDate e (ticks ?sp))"
    by (rule siteStep_covered[OF idx k2 k3])
  then have "covered e (ada_scores (runSites e post (siteStep e st ?sp))) (site_id st) (utcDate e (ticks ?sp))"
    using covered_mono runSites_grows by blast
  from covered_row[OF this] show "(\<exists>row \<in> set (ada_scores (snd (fetchAndInsertRecords e s))).
      sid row = site_id st \<and>
      (date row = utcDate e (ticks (runSites e pre (loaded e (length sites) s))) \<or>
       storedDate e (date row) =
         utcDate e (ticks (runSites e pre (loaded e (length sites) s)))))"
    by (simp only: run fin)
next
  fix st :: site and err s1 assume "overview e (site_id st) = Inl err"
  then show "processSite e st s1 =
        (Inr (),
         snd (logErrorToDatabase e (Some (site_id st)) (site_name st)
                (''Approved site failed during processing: '' @ message err) ''WARNING''
                (incr_processed (s1\<lparr>ticks := Suc (ticks s1)\<rparr>))))"
    by (simp add: processSite_pair siteStep_overview_fails)
next
  fix r :: score_record and m and s1 :: state
  assume "recordKey (sid r) (date r) \<notin> existingRecords s1 \<and> dbFails e (queries s1) = Some m"
  then show "insertScore e r s1 =
        (Inr False,
         snd (logErrorToDatabase e (Some (sid r)) (name r) m ''ERROR''
                (incr_insertErrors (s1\<lparr>queries := Suc (queries s1)\<rparr>))))"
    by (simp add: insertScore_eq)
qed

lemma threeSitesEnv_accessible: "accessibleSites threeSitesEnv = Inr threeSites"
  by (simp add: accessibleSites_def threeSitesEnv_def exampleEnv_def threeSites_def)

lemma failingSiteEnv_accessible: "accessibleSites failingSiteEnv = Inr threeSites"
  by (simp add: accessibleSites_def failingSiteEnv_def threeSitesEnv_def exampleEnv_def threeSites_def)

lemma failingInsertEnv_accessible: "accessibleSites failingInsertEnv = Inr threeSites"
  by (simp add: accessibleSites_def failingInsertEnv_def threeSitesEnv_def exampleEnv_def threeSites_def)

lemma failingInsertEnv_sel:
  "dbFails failingInsertEnv n = (if n = 1 then Some ''deadlock detected'' else None)"
  "utcDate failingInsertEnv n = ''2025-06-15''"
  "storedDate failingInsertEnv d = d"
  "overview failingInsertEnv i = Inr (Some examplePayload)"
  "targetHistory failingInsertEnv i = Inr (Some exampleEntries)"
  by (simp_all add: failingInsertEnv_def threeSitesEnv_def exampleEnv_def)

lemma failingLoadEnv_accessible: "accessibleSites failingLoadEnv = Inr threeSites"
  by (simp add: accessibleSites_def failingLoadEnv_def threeSitesEnv_def exampleEnv_def threeSites_def)

lemma failingSiteEnv_sel:
  "dbFails failingSiteEnv n = None"
  "utcDate failingSiteEnv n = ''2025-06-15''"
  "storedDate failingSiteEnv d = d"
  "overview failingSiteEnv i = (if i = 102
        then Inl (AxiosError (Some \<lparr>status = 500, retry_after = None\<rparr>) ''Request failed with status code 500'')
        else Inr (Some examplePayload))"
  "targetHistory failingSiteEnv i = Inr (Some exampleEntries)"
  by (simp_all add: failingSiteEnv_def threeSitesEnv_def exampleEnv_def)

theorem site_failures_do_not_stop_the_run_witness:
  "dbFails failingSiteEnv (queries emptyState) = None \<and>
   accessibleSites failingSiteEnv = Inr threeSites \<and>
   (\<exists>err. overview failingSiteEnv (site_id (threeSites ! 1)) = Inl err) \<and>
   hasScores failingSiteEnv (threeSites ! 2) \<and>
   processed (stats (runSites failingSiteEnv threeSites (loaded failingSiteEnv (length threeSites) emptyState))) = 3 \<and>
   (\<exists>row \<in> set (ada_scores (snd (fetchAndInsertRecords failingSiteEnv emptyState))).
       sid row = site_id (threeSites ! 2)) \<and>
   map sid (ada_scores (snd (fetchAndInsertRecords failingSiteEnv emptyState))) = [101, 103] \<and>
   map log_level (error_logs (snd (fetchAndInsertRecords failingSiteEnv emptyState))) = [''WARNING''] \<and>
   fst (processSite failingSiteEnv (threeSites ! 1) emptyState) = Inr () \<and>
   recordKey (sid (hd exampleRows)) (date (hd exampleRows)) \<notin> existingRecords emptyState \<and>
   dbFails rejectingEnv (queries emptyState) = Some ''invalid input syntax for type integer'' \<and>
   fst (insertScore rejectingEnv (hd exampleRows) emptyState) = Inr False \<and>
   dbFails failingInsertEnv (queries emptyState) = None \<and>
   accessibleSites failingInsertEnv = Inr threeSites \<and>
   threeSites = [threeSites ! 0] @ threeSites ! 1 # [threeSites ! 2] \<and>
   hasScores failingInsertEnv (threeSites ! 1) \<and>
   insertErrors (stats (runSites failingInsertEnv [threeSites ! 0]
      (loaded failingInsertEnv (length threeSites) emptyState))) = 1 \<and>
   insertErrors (stats (siteStep failingInsertEnv (threeSites ! 1)
      (runSites failingInsertEnv [threeSites ! 0]
         (loaded failingInsertEnv (length threeSites) emptyState)))) = 1 \<and>
   (\<exists>row \<in> set (ada_scores (snd (fetchAndInsertRecords failingInsertEnv emptyState))).
       sid row = site_id (threeSites ! 1)) \<and>
   map sid (ada_scores (snd (fetchAndInsertRecords failingInsertEnv emptyState))) = [102, 103] \<and>
   map log_level (error_logs (snd (fetchAndInsertRecords failingInsertEnv emptyState))) = [''ERROR''] \<and>
   fst (fetchAndInsertRecords failingInsertEnv emptyState) =
     Inr \<lparr>sitesPulled = 3, processed = 3, inserted = 2, skippedExisting = 0,
          targetInfoNotes = 0, targetErrors = 0, insertErrors = 1\<rparr>"
proof -
  note inst3 = site_failures_do_not_stop_the_run[of failingInsertEnv emptyState threeSites]
  have db3: "dbFails failingInsertEnv (queries emptyState) = None"
    by (simp add: failingInsertEnv_sel emptyState_def)
  have acc3: "accessibleSites failingInsertEnv = Inr threeSites" by (rule failingInsertEnv_accessible)
  have dec: "threeSites = [threeSites ! 0] @ threeSites ! 1 # [threeSites ! 2]"
    by (simp add: threeSites_def)
  have hs3: "hasScores failingInsertEnv (threeSites ! 1)"
    by (simp add: hasScores_def failingInsertEnv_sel)
  have ie1: "insertErrors (stats (runSites failingInsertEnv [threeSites ! 0]
      (loaded failingInsertEnv (length threeSites) emptyState))) = 1"
    by (simp add: loaded_def storedKeys_def failingInsertEnv_sel threeSites_def state_defs step_defs
        recordKey_inj)
  have ie2: "insertErrors (stats (siteStep failingInsertEnv (threeSites ! 1)
      (runSites failingInsertEnv [threeSites ! 0]
         (loaded failingInsertEnv (length threeSites) emptyState)))) = 1"
    by (simp add: loaded_def storedKeys_def failingInsertEnv_sel threeSites_def state_defs step_defs
        recordKey_inj)
  from inst3 db3 acc3 dec hs3 ie1 ie2 have
    r3: "\<exists>row \<in> set (ada_scores (snd (fetchAndInsertRecords failingInsertEnv emptyState))).
       sid row = site_id (threeSites ! 1)"
    by (metis (no_types, lifting))
  have ev3: "map sid (ada_scores (snd (fetchAndInsertRecords failingInsertEnv emptyState))) = [102, 103]"
    "map log_level (error_logs (snd (fetchAndInsertRecords failingInsertEnv emptyState))) = [''ERROR'']"
    "fst (fetchAndInsertRecords failingInsertEnv emptyState) =
     Inr \<lparr>sitesPulled = 3, processed = 3, inserted = 2, skippedExisting = 0,
          targetInfoNotes = 0, targetErrors = 0, insertErrors = 1\<rparr>"
    by (simp_all add: fetchAndInsertRecords_eq failingInsertEnv_accessible loaded_def storedKeys_def
        failingInsertEnv_sel threeSites_def state_defs step_defs recordKey_inj)
  note inst2 = site_failures_do_not_stop_the_run[of rejectingEnv emptyState threeSites]
  have nk: "recordKey (sid (hd exampleRows)) (date (hd exampleRows)) \<notin> existingRecords emptyState"
    by (simp add: emptyState_def)
  have rj: "dbFails rejectingEnv (queries emptyState) = Some ''invalid input syntax for type integer''"
    by (simp add: rejectingEnv_sel emptyState_def)
  from inst2 nk rj have ie: "fst (insertScore rejectingEnv (hd exampleRows) emptyState) = Inr False"
    by (metis fst_conv)
  have db0: "dbFails failingSiteEnv (queries emptyState) = None" by (simp add: failingSiteEnv_sel)
  have db: "\<forall>n. dbFails failingSiteEnv n = None" by (simp add: failingSiteEnv_sel)
  have acc: "accessibleSites failingSiteEnv = Inr threeSites" by (rule failingSiteEnv_accessible)
  have ovf: "\<exists>err. overview failingSiteEnv (site_id (threeSites ! 1)) = Inl err"
    by (simp add: failingSiteEnv_sel threeSites_def)
  have hs: "hasScores failingSiteEnv (threeSites ! 2)"
    by (simp add: hasScores_def failingSiteEnv_sel threeSites_def)
  have mem: "threeSites ! 2 \<in> set threeSites" by (simp add: threeSites_def)
  note inst = site_failures_do_not_stop_the_run[of failingSiteEnv emptyState threeSites]
  from inst db0 acc have
    p: "processed (stats (runSites failingSiteEnv threeSites (loaded failingSiteEnv (length threeSites) emptyState))) = length threeSites"
    by blast
  from inst db0 acc db mem hs have
    r: "\<exists>row \<in> set (ada_scores (snd (fetchAndInsertRecords failingSiteEnv emptyState))).
       sid row = site_id (threeSites ! 2)"
    by blast
  have ev: "map sid (ada_scores (snd (fetchAndInsertRecords failingSiteEnv emptyState))) = [101, 103]"
     "map log_level (error_logs (snd (fetchAndInsertRecords failingSiteEnv emptyState))) = [''WARNING'']"
    by (simp_all add: fetchAndInsertRecords_eq failingSiteEnv_accessible loaded_def storedKeys_def
        failingSiteEnv_sel threeSites_def state_defs step_defs recordKey_inj)
  from p have p3: "processed (stats (runSites failingSiteEnv threeSites (loaded failingSiteEnv (length threeSites) emptyState))) = 3"
    by (simp add: threeSites_def)
  from ovf obtain err where "overview failingSiteEnv (site_id (threeSites ! 1)) = Inl err" by blast
  with inst have ps: "fst (processSite failingSiteEnv (threeSites ! 1) emptyState) = Inr ()"
    by (metis fst_conv)
  from db0 acc ovf hs p3 r ev ps nk rj ie db3 acc3 dec hs3 ie1 ie2 r3 ev3
  show ?thesis by (intro conjI)
qed

lemma failingLoadEnv_sel:
  "dbFails failingLoadEnv n = (if n = 0 then Some ''connection refused'' else None)"
  by (simp add: failingLoadEnv_def threeSitesEnv_def exampleEnv_def)

theorem load_failure_counterexample:
  "accessibleSites failingLoadEnv = Inr threeSites \<and>
   fst (fetchAndInsertRecords failingLoadEnv emptyState) = Inl (DatabaseError ''connection refused'') \<and>
   processed (stats (snd (fetchAndInsertRecords failingLoadEnv emptyState))) = 0 \<and>
   ada_scores (snd (fetchAndInsertRecords failingLoadEnv emptyState)) = [] \<and>
   error_logs (snd (fetchAndInsertRecords failingLoadEnv emptyState)) = []"
  by (simp add: failingLoadEnv_accessible fetchAndInsertRecords_eq failingLoadEnv_sel emptyState_def newStats_def)




subsection \<open>Two runs in succession\<close>

lemma siteStep_writerCalls:
  "writerCalls (stats (siteStep e st s)) = writerCalls (stats s) + (if hasScores e st then 1 else 0)"
proof (cases rule: siteStep_cases[of e st s])
  case (fails err)
  then show ?thesis by (simp add: hasScores_def)
next
  case no_scores
  then show ?thesis by (simp add: hasScores_def targetLookup_stats)
next
  case (scores p t s1)
  have "writerCalls (stats s1) = writerCalls (stats s)"
    using targetLookup_state(5)[OF scores(2)] by simp
  then show ?thesis using scores(1) by (simp add: scores(3) insertScore_stats hasScores_def)
qed

lemma runSites_writerCalls:
  "writerCalls (stats (runSites e sites s)) = writerCalls (stats s) + length (filter (hasScores e) sites)"
  by (induction sites arbitrary: s) (simp_all add: siteStep_writerCalls)

text \<open>A turn for a site whose pair is accounted for inserts nothing.\<close>

lemma insertScore_covered_no_insert:
  assumes "existingRecords s = storedKeys e (ada_scores s)"
    and "covered e (ada_scores s) (sid r) (date r)"
  shows "ada_scores (snd (insertScore e r s)) = ada_scores s"
    and "existingRecords (snd (insertScore e r s)) = existingRecords s"
    and "inserted (stats (snd (insertScore e r s))) = inserted (stats s)"
  using assms
  by (auto simp: insertScore_eq covered_def incr_skippedExisting_def incr_insertErrors_def
      split: option.splits)

lemma siteStep_covered_no_insert:
  assumes idx: "existingRecords s = storedKeys e (ada_scores s)"
    and cov: "hasScores e st \<longrightarrow> covered e (ada_scores s) (site_id st) (utcDate e (ticks s))"
  shows "ada_scores (siteStep e st s) = ada_scores s \<and>
         existingRecords (siteStep e st s) = existingRecords s \<and>
         inserted (stats (siteStep e st s)) = inserted (stats s)"
proof (cases rule: siteStep_cases[of e st s])
  case (fails err)
  then show ?thesis by (simp add: incr_processed_def)
next
  case no_scores
  then show ?thesis by (simp add: targetLookup_stats incr_processed_def)
next
  case (scores p t s1)
  let ?r = "buildRecord st p t (utcDate e (ticks s))"
  have s1: "ada_scores s1 = ada_scores s" "existingRecords s1 = existingRecords s"
    "inserted (stats s1) = inserted (stats s)"
    using targetLookup_state(1,2,4)[OF scores(2)] by (simp_all add: incr_processed_def)
  have hs: "hasScores e st" using scores(1) by (simp add: hasScores_def)
  have i1: "existingRecords s1 = storedKeys e (ada_scores s1)" using idx s1 by simp
  have c1: "covered e (ada_scores s1) (sid ?r) (date ?r)" using cov hs s1 by simp
  from insertScore_covered_no_insert[OF i1 c1] s1 show ?thesis by (simp add: scores(3))
qed

lemma runSites_covered_no_insert:
  assumes clock: "\<forall>n. utcDate e n = d"
  shows "existingRecords s = storedKeys e (ada_scores s) \<Longrightarrow>
    (\<forall>st \<in> set sites. hasScores e st \<longrightarrow> covered e (ada_scores s) (site_id st) d) \<Longrightarrow>
    inserted (stats (runSites e sites s)) = inserted (stats s)"
proof (induction sites arbitrary: s)
  case Nil
  then show ?case by simp
next
  case (Cons x sites)
  have "hasScores e x \<longrightarrow> covered e (ada_scores s) (site_id x) (utcDate e (ticks s))"
    using Cons.prems(2) clock by simp
  from siteStep_covered_no_insert[OF Cons.prems(1) this]
  have st: "ada_scores (siteStep e x s) = ada_scores s"
    "existingRecords (siteStep e x s) = existingRecords s"
    "inserted (stats (siteStep e x s)) = inserted (stats s)" by simp_all
  have "inserted (stats (runSites e sites (siteStep e x s))) = inserted (stats (siteStep e x s))"
    by (rule Cons.IH) (use Cons.prems st in simp_all)
  with st show ?case by simp
qed

lemma fetchAndInsertRecords_Inr:
  assumes "fetchAndInsertRecords e s = (Inr c, s')"
  obtains sites where "dbFails e (queries s) = None" "accessibleSites e = Inr sites"
    "s' = runSites e sites (loaded e (length sites) s)" "c = stats s'"
  using assms
  by (cases "dbFails e (queries s)"; cases "accessibleSites e")
     (auto simp: fetchAndInsertRecords_eq)

lemma loaded_stats [simp]:
  "writerCalls (stats (loaded e n s)) = 0" "inserted (stats (loaded e n s)) = 0"
  "insertErrors (stats (loaded e n s)) = 0"
  "ada_scores (loaded e n s) = ada_scores s"
  "existingRecords (loaded e n s) = storedKeys e (ada_scores s)"
  by (simp_all add: loaded_def newStats_def writerCalls_def)

text \<open>
  Claim C2, as the code has it. Let two incremental runs follow each other on the same
  day against the same upstream, and let the first one have met no insert error. Then the
  second run inserts nothing, and each of its calls of the writer is a skip (or an insert
  error of its own): the number of its skips and insert errors is the number of inserts
  plus the number of skips of the first run.
\<close>

theorem second_run_inserts_nothing:
  assumes clock: "\<forall>n. utcDate e n = d"
    and run1: "fetchAndInsertRecords e s = (Inr c1, s1)"
    and run2: "fetchAndInsertRecords e s1 = (Inr c2, s2)"
    and noerr: "insertErrors c1 = 0"
  shows "inserted c2 = 0 \<and>
         skippedExisting c2 + insertErrors c2 = inserted c1 + skippedExisting c1"
proof -
  from run1 obtain sites where r1: "accessibleSites e = Inr sites"
    "s1 = runSites e sites (loaded e (length sites) s)" "c1 = stats s1"
    by (rule fetchAndInsertRecords_Inr)
  from run2 obtain sites2 where r2': "accessibleSites e = Inr sites2"
    "s2 = runSites e sites2 (loaded e (length sites2) s1)" "c2 = stats s2"
    by (rule fetchAndInsertRecords_Inr)
  from r1(1) r2'(1) have "sites2 = sites" by simp
  with r2' have r2: "s2 = runSites e sites (loaded e (length sites) s1)" "c2 = stats s2" by simp_all
  let ?n = "length (filter (hasScores e) sites)"
  have w1: "writerCalls c1 = ?n" by (simp add: r1 runSites_writerCalls)
  have w2: "writerCalls c2 = ?n" by (simp add: r2 runSites_writerCalls)
  have e1: "insertErrors (stats (runSites e sites (loaded e (length sites) s))) =
      insertErrors (stats (loaded e (length sites) s))"
    using noerr r1 by simp
  have cov: "\<forall>st \<in> set sites. hasScores e st \<longrightarrow> covered e (ada_scores s1) (site_id st) d"
  proof (intro ballI impI)
    fix st assume "st \<in> set sites" "hasScores e st"
    from runSites_covered[OF loaded_indexSound e1 this]
    show "covered e (ada_scores s1) (site_id st) d" using clock r1(2) by simp
  qed
  have "inserted (stats (runSites e sites (loaded e (length sites) s1))) =
      inserted (stats (loaded e (length sites) s1))"
    by (rule runSites_covered_no_insert[OF clock]) (use cov in simp_all)
  then have i2: "inserted c2 = 0" by (simp add: r2)
  from w1 w2 noerr i2 show ?thesis by (simp add: writerCalls_def)
qed




lemma threeSitesEnv_sel:
  "dbFails threeSitesEnv n = None"
  "utcDate threeSitesEnv n = ''2025-06-15''"
  "storedDate threeSitesEnv d = d"
  "overview threeSitesEnv i = Inr (Some examplePayload)"
  "targetHistory threeSitesEnv i = Inr (Some exampleEntries)"
  by (simp_all add: threeSitesEnv_def exampleEnv_def)

lemma first_run_example:
  "fetchAndInsertRecords threeSitesEnv oneRowState =
     (Inr (stats (snd (fetchAndInsertRecords threeSitesEnv oneRowState))),
      snd (fetchAndInsertRecords threeSitesEnv oneRowState))"
  by (simp add: fetchAndInsertRecords_eq threeSitesEnv_accessible threeSitesEnv_sel)

lemma second_run_example:
  "fetchAndInsertRecords threeSitesEnv (snd (fetchAndInsertRecords threeSitesEnv oneRowState)) =
     (Inr (stats (snd (fetchAndInsertRecords threeSitesEnv (snd (fetchAndInsertRecords threeSitesEnv oneRowState))))),
      snd (fetchAndInsertRecords threeSitesEnv (snd (fetchAndInsertRecords threeSitesEnv oneRowState))))"
  by (simp add: fetchAndInsertRecords_eq[of threeSitesEnv] threeSitesEnv_accessible threeSitesEnv_sel)

lemma first_run_stats:
  "stats (snd (fetchAndInsertRecords threeSitesEnv oneRowState)) =
     \<lparr>sitesPulled = 3, processed = 3, inserted = 2, skippedExisting = 1,
      targetInfoNotes = 0, targetErrors = 0, insertErrors = 0\<rparr>"
  by (simp add: fetchAndInsertRecords_eq threeSitesEnv_accessible loaded_def storedKeys_def
      threeSitesEnv_sel threeSites_def oneRowState_def exampleRows_def state_defs step_defs recordKey_inj)


lemma second_run_stats:
  "stats (snd (fetchAndInsertRecords threeSitesEnv (snd (fetchAndInsertRecords threeSitesEnv oneRowState)))) =
     \<lparr>sitesPulled = 3, processed = 3, inserted = 0, skippedExisting = 3,
      targetInfoNotes = 0, targetErrors = 0, insertErrors = 0\<rparr>"
  by (simp add: fetchAndInsertRecords_eq threeSitesEnv_accessible loaded_def storedKeys_def
      threeSitesEnv_sel threeSites_def oneRowState_def exampleRows_def state_defs step_defs recordKey_inj)

text \<open>
  The second run of the scenario skips three records while the first one inserted two: the
  record that the first run skipped is skipped again.
\<close>

theorem second_run_skips_counterexample:
  "inserted (stats (snd (fetchAndInsertRecords threeSitesEnv oneRowState))) = 2 \<and>
   skippedExisting (stats (snd (fetchAndInsertRecords threeSitesEnv oneRowState))) = 1 \<and>
   inserted (stats (snd (fetchAndInsertRecords threeSitesEnv
      (snd (fetchAndInsertRecords threeSitesEnv oneRowState))))) = 0 \<and>
   skippedExisting (stats (snd (fetchAndInsertRecords threeSitesEnv
      (snd (fetchAndInsertRecords threeSitesEnv oneRowState))))) = 3 \<and>
   skippedExisting (stats (snd (fetchAndInsertRecords threeSitesEnv
      (snd (fetchAndInsertRecords threeSitesEnv oneRowState))))) \<noteq>
   inserted (stats (snd (fetchAndInsertRecords threeSitesEnv oneRowState)))"
  by (simp add: first_run_stats second_run_stats)

theorem second_run_inserts_nothing_witness:
  "(\<forall>n. utcDate threeSitesEnv n = ''2025-06-15'') \<and>
   insertErrors (stats (snd (fetchAndInsertRecords threeSitesEnv oneRowState))) = 0 \<and>
   inserted (stats (snd (fetchAndInsertRecords threeSitesEnv
      (snd (fetchAndInsertRecords threeSitesEnv oneRowState))))) = 0 \<and>
   skippedExisting (stats (snd (fetchAndInsertRecords threeSitesEnv
      (snd (fetchAndInsertRecords threeSitesEnv oneRowState))))) +
   insertErrors (stats (snd (fetchAndInsertRecords threeSitesEnv
      (snd (fetchAndInsertRecords threeSitesEnv oneRowState))))) =
   inserted (stats (snd (fetchAndInsertRecords threeSitesEnv oneRowState))) +
   skippedExisting (stats (snd (fetchAndInsertRecords threeSitesEnv oneRowState)))"
proof -
  have clock: "\<forall>n. utcDate threeSitesEnv n = ''2025-06-15''" by (simp add: threeSitesEnv_sel)
  have noerr: "insertErrors (stats (snd (fetchAndInsertRecords threeSitesEnv oneRowState))) = 0"
    by (simp add: first_run_stats)
  from second_run_inserts_nothing[OF clock first_run_example second_run_example noerr] clock noerr
  show ?thesis by (intro conjI) simp_all
qed




subsection \<open>Date reconciliation\<close>

lemma findTargetEntry_Found:
  "findTargetEntry tz dateStr items = Found e \<Longrightarrow>
   \<exists>pre post. items = pre @ e # post \<and>
     (\<exists>ts. timestamp e = Some ts \<and> entryDate tz ts = Some dateStr) \<and>
     (\<forall>x \<in> set pre. \<exists>ts d. timestamp x = Some ts \<and> entryDate tz ts = Some d \<and> d \<noteq> dateStr)"
proof (induction items)
  case Nil
  then show ?case by simp
next
  case (Cons x items)
  from Cons.prems obtain ts d where x: "timestamp x = Some ts" "entryDate tz ts = Some d"
    by (auto split: option.splits)
  show ?case
  proof (cases "d = dateStr")
    case True
    with Cons.prems x have "e = x" by simp
    with x True show ?thesis by (intro exI[of _ "[]"] exI[of _ items]) simp
  next
    case False
    with Cons.prems x have "findTargetEntry tz dateStr items = Found e" by simp
    from Cons.IH[OF this] obtain pre post where p: "items = pre @ e # post"
      "\<exists>ts. timestamp e = Some ts \<and> entryDate tz ts = Some dateStr"
      "\<forall>x \<in> set pre. \<exists>ts d. timestamp x = Some ts \<and> entryDate tz ts = Some d \<and> d \<noteq> dateStr"
      by blast
    with x False show ?thesis by (intro exI[of _ "x # pre"] exI[of _ post]) simp
  qed
qed

text \<open>A midnight in local time falls on the same UTC date at or west of Greenwich, and on the
  day before east of it.\<close>

lemma utcDateOf_midnight_west:
  "- 1440 < tz \<Longrightarrow> tz \<le> 0 \<Longrightarrow> utcDateOf tz (c, 0, True) = Some c"
  by (simp add: utcDateOf_def Let_def)

lemma utcDateOf_midnight_east:
  "0 < tz \<Longrightarrow> tz < 1440 \<Longrightarrow> utcDateOf tz (c, 0, True) = previousDay c"
  by (simp add: utcDateOf_def Let_def)

text \<open>
  Claim C6, evaluated. The history holds entries for \<^verbatim>\<open>2025-06-14 00:00:00\<close> and
  \<^verbatim>\<open>2025-06-15 00:00:00\<close>. With the process two hours east of UTC the backfill finds no
  entry for target date 2025-06-15, and for target date 2025-06-14 it selects the entry of
  2025-06-15. With the process on UTC it selects the entry of 2025-06-15 for 2025-06-15,
  as the incremental run does with its prefix test whatever the time zone.
\<close>

theorem date_reconciliation_shifts_east_of_utc:
  "findTargetEntry 120 ''2025-06-15'' exampleEntries = NotFound \<and>
   findTargetEntry 120 ''2025-06-14'' exampleEntries = Found (exampleEntries ! 1) \<and>
   findTargetEntry 0 ''2025-06-15'' exampleEntries = Found (exampleEntries ! 1) \<and>
   find (isTodayEntry ''2025-06-15'') exampleEntries = Some (exampleEntries ! 1)"
  by code_simp


end
